theory Spec2Isabelle
  imports Main "HOL-Library.Sublist" "HOL-Library.AList" "HOL-Library.Word" "HOL-Library.Multiset"
begin

unbundle bit_operations_syntax

section \<open>The filesystem\<close>

text \<open>
  \<^verbatim>\<open>FileSyncer.py\<close> works on one filesystem through \<^verbatim>\<open>os\<close>, \<^verbatim>\<open>shutil\<close> and \<^verbatim>\<open>open\<close>;
  the source folder, the replica folder and the log file are three paths into it.
  The filesystem is a tree. A path is the list of its components from the root, so
  \<^verbatim>\<open>os.path.join(root, name)\<close> is \<open>root @ [name]\<close>. A file holds bytes (\<open>char\<close> is a
  byte). A directory holds its entries in the order \<^verbatim>\<open>os.scandir\<close> lists them.
  Symbolic links, permissions and time stamps of files are not modelled.
\<close>

type_synonym name = string
type_synonym path = "name list"
type_synonym content = string

datatype node = File content | Dir "(name \<times> node) list"

datatype kind = KFile content | KDir

datatype error =
    FileNotFoundError | IsADirectoryError | NotADirectoryError | FileExistsError
  | DirectoryNotEmpty | SameFileError | PermissionError

primrec entries :: "node \<Rightarrow> (name \<times> node) list" where
  "entries (File c) = []"
| "entries (Dir es) = es"

primrec is_Dir :: "node \<Rightarrow> bool" where
  "is_Dir (File c) = False"
| "is_Dir (Dir es) = True"

definition child :: "node \<Rightarrow> name \<Rightarrow> node option" where
  "child n x = map_of (entries n) x"

fun lookup :: "node \<Rightarrow> path \<Rightarrow> node option" where
  "lookup n [] = Some n"
| "lookup n (x # p) = (case child n x of None \<Rightarrow> None | Some m \<Rightarrow> lookup m p)"

primrec kind_of :: "node \<Rightarrow> kind" where
  "kind_of (File c) = KFile c"
| "kind_of (Dir es) = KDir"

definition stat :: "node \<Rightarrow> path \<Rightarrow> kind option" where
  "stat fs p = map_option kind_of (lookup fs p)"

text \<open>Well-formed trees: the names in a directory are distinct.\<close>

fun wf_fs :: "node \<Rightarrow> bool" where
  "wf_fs (File c) = True"
| "wf_fs (Dir es) = (distinct (map fst es) \<and> (\<forall>(x, n) \<in> set es. wf_fs n))"

text \<open>Replacing (\<open>Some\<close>) or deleting (\<open>None\<close>) the entry at a path whose parent is a directory.\<close>

fun set_child :: "node \<Rightarrow> name \<Rightarrow> node option \<Rightarrow> node" where
  "set_child (File c) x v = File c"
| "set_child (Dir es) x None = Dir (AList.delete x es)"
| "set_child (Dir es) x (Some m) = Dir (AList.update x m es)"

fun put :: "path \<Rightarrow> node option \<Rightarrow> node \<Rightarrow> node" where
  "put [] v n = n"
| "put [x] v n = set_child n x v"
| "put (x # p) v n =
     (case child n x of None \<Rightarrow> n | Some m \<Rightarrow> set_child n x (Some (put p v m)))"

subsection \<open>The operations of \<^verbatim>\<open>os\<close>, \<^verbatim>\<open>shutil\<close> and \<^verbatim>\<open>open\<close>\<close>

definition os_path_exists :: "node \<Rightarrow> path \<Rightarrow> bool" where
  "os_path_exists fs p = (lookup fs p \<noteq> None)"

definition os_path_isdir :: "node \<Rightarrow> path \<Rightarrow> bool" where
  "os_path_isdir fs p = (case lookup fs p of Some (Dir es) \<Rightarrow> True | _ \<Rightarrow> False)"

definition os_path_dirname :: "path \<Rightarrow> path" where
  "os_path_dirname p = butlast p"

definition os_path_basename :: "path \<Rightarrow> path" where
  "os_path_basename p = (if p = [] then [] else [last p])"

text \<open>
  \<^verbatim>\<open>os.path.relpath(p, start)\<close> is only called with \<open>start\<close> a prefix of \<open>p\<close>: the roots
  that \<^verbatim>\<open>os.walk(top)\<close> yields begin with \<open>top\<close>.
\<close>

definition os_path_relpath :: "path \<Rightarrow> path \<Rightarrow> path" where
  "os_path_relpath p start = drop (length start) p"

definition os_remove :: "node \<Rightarrow> path \<Rightarrow> error + node" where
  "os_remove fs p =
     (case lookup fs p of
        None \<Rightarrow> Inl FileNotFoundError
      | Some (Dir es) \<Rightarrow> Inl IsADirectoryError
      | Some (File c) \<Rightarrow> if p = [] then Inl PermissionError else Inr (put p None fs))"

definition os_rmdir :: "node \<Rightarrow> path \<Rightarrow> error + node" where
  "os_rmdir fs p =
     (case lookup fs p of
        None \<Rightarrow> Inl FileNotFoundError
      | Some (File c) \<Rightarrow> Inl NotADirectoryError
      | Some (Dir es) \<Rightarrow>
          if es \<noteq> [] then Inl DirectoryNotEmpty
          else if p = [] then Inl PermissionError
          else Inr (put p None fs))"

definition os_mkdir :: "node \<Rightarrow> path \<Rightarrow> error + node" where
  "os_mkdir fs p =
     (case lookup fs p of
        Some n \<Rightarrow> Inl FileExistsError
      | None \<Rightarrow>
         (case lookup fs (butlast p) of
            None \<Rightarrow> Inl FileNotFoundError
          | Some (File c) \<Rightarrow> Inl NotADirectoryError
          | Some (Dir es) \<Rightarrow> Inr (put p (Some (Dir [])) fs)))"

text \<open>
  \<^verbatim>\<open>os.makedirs(name)\<close> splits \<open>name\<close> into head and tail, creates the head first when it
  does not exist, then calls \<^verbatim>\<open>mkdir(name)\<close>. The argument of \<open>makedirs_rev\<close> is the
  reversed path, so that the tail comes first.
\<close>

fun makedirs_rev :: "node \<Rightarrow> path \<Rightarrow> error + node" where
  "makedirs_rev fs [] = os_mkdir fs []"
| "makedirs_rev fs (tail # rhead) =
     (if \<not> os_path_exists fs (rev rhead) then
        (case makedirs_rev fs rhead of
           Inl e \<Rightarrow> Inl e
         | Inr fs' \<Rightarrow> os_mkdir fs' (rev (tail # rhead)))
      else os_mkdir fs (rev (tail # rhead)))"

definition os_makedirs :: "node \<Rightarrow> path \<Rightarrow> error + node" where
  "os_makedirs fs p = makedirs_rev fs (rev p)"

definition read_file :: "node \<Rightarrow> path \<Rightarrow> error + content" where
  "read_file fs p =
     (case lookup fs p of
        None \<Rightarrow> Inl FileNotFoundError
      | Some (Dir es) \<Rightarrow> Inl IsADirectoryError
      | Some (File c) \<Rightarrow> Inr c)"

text \<open>\<^verbatim>\<open>open(p, "wb")\<close> followed by one write of \<open>c\<close>.\<close>

definition write_file :: "node \<Rightarrow> path \<Rightarrow> content \<Rightarrow> error + node" where
  "write_file fs p c =
     (case lookup fs p of
        Some (Dir es) \<Rightarrow> Inl IsADirectoryError
      | Some (File c') \<Rightarrow> Inr (put p (Some (File c)) fs)
      | None \<Rightarrow>
         (case lookup fs (butlast p) of
            None \<Rightarrow> Inl FileNotFoundError
          | Some (File c') \<Rightarrow> Inl NotADirectoryError
          | Some (Dir es) \<Rightarrow> Inr (put p (Some (File c)) fs)))"

text \<open>\<^verbatim>\<open>open(p, "a")\<close> followed by one write of \<open>c\<close>.\<close>

definition append_file :: "node \<Rightarrow> path \<Rightarrow> content \<Rightarrow> error + node" where
  "append_file fs p c =
     (case lookup fs p of
        Some (File c') \<Rightarrow> write_file fs p (c' @ c)
      | _ \<Rightarrow> write_file fs p c)"

text \<open>
  \<^verbatim>\<open>shutil.copy2(src, dst)\<close>: a directory as \<open>dst\<close> stands for the file of the same base name
  inside it; copying a file onto itself is refused; then the bytes are copied.
\<close>

definition shutil_copy2 :: "node \<Rightarrow> path \<Rightarrow> path \<Rightarrow> error + node" where
  "shutil_copy2 fs src dst =
     (let dst' = (if os_path_isdir fs dst then dst @ os_path_basename src else dst) in
      if src = dst' \<and> os_path_exists fs src then Inl SameFileError
      else (case read_file fs src of
              Inl e \<Rightarrow> Inl e
            | Inr c \<Rightarrow> write_file fs dst' c))"

subsection \<open>\<^verbatim>\<open>os.walk\<close>\<close>

definition dirnames :: "(name \<times> node) list \<Rightarrow> name list" where
  "dirnames es = map fst (filter (\<lambda>(x, n). is_Dir n) es)"

definition filenames :: "(name \<times> node) list \<Rightarrow> name list" where
  "filenames es = map fst (filter (\<lambda>(x, n). \<not> is_Dir n) es)"

text \<open>
  The triples \<open>(root, dirs, files)\<close> that \<^verbatim>\<open>os.walk(top)\<close> yields, top-down and bottom-up.
  A \<open>top\<close> that cannot be listed yields nothing. The walk of a file is empty, so walking
  every entry is walking every subdirectory.
\<close>

fun walk_topdown :: "path \<Rightarrow> node \<Rightarrow> (path \<times> name list \<times> name list) list" where
  "walk_topdown tp (File c) = []"
| "walk_topdown tp (Dir es) =
     (tp, dirnames es, filenames es) #
     concat (map (\<lambda>(x, n). walk_topdown (tp @ [x]) n) es)"

fun walk_bottomup :: "path \<Rightarrow> node \<Rightarrow> (path \<times> name list \<times> name list) list" where
  "walk_bottomup tp (File c) = []"
| "walk_bottomup tp (Dir es) =
     concat (map (\<lambda>(x, n). walk_bottomup (tp @ [x]) n) es) @
     [(tp, dirnames es, filenames es)]"

definition os_walk :: "node \<Rightarrow> path \<Rightarrow> bool \<Rightarrow> (path \<times> name list \<times> name list) list" where
  "os_walk fs tp topdown =
     (case lookup fs tp of
        None \<Rightarrow> []
      | Some n \<Rightarrow> if topdown then walk_topdown tp n else walk_bottomup tp n)"


section \<open>MD5\<close>

text \<open>
  \<^verbatim>\<open>hashlib.md5\<close> is the MD5 function of RFC 1321: the message is padded to a multiple
  of 64 bytes, cut into blocks of sixteen little-endian 32-bit words, and each block goes
  through 64 steps. The state is four 32-bit words.
\<close>

type_synonym w32 = "32 word"
type_synonym md5_state = "w32 \<times> w32 \<times> w32 \<times> w32"

definition md5_K :: "w32 list" where
  "md5_K =
    [0xd76aa478, 0xe8c7b756, 0x242070db, 0xc1bdceee, 0xf57c0faf, 0x4787c62a, 0xa8304613, 0xfd469501,
     0x698098d8, 0x8b44f7af, 0xffff5bb1, 0x895cd7be, 0x6b901122, 0xfd987193, 0xa679438e, 0x49b40821,
     0xf61e2562, 0xc040b340, 0x265e5a51, 0xe9b6c7aa, 0xd62f105d, 0x02441453, 0xd8a1e681, 0xe7d3fbc8,
     0x21e1cde6, 0xc33707d6, 0xf4d50d87, 0x455a14ed, 0xa9e3e905, 0xfcefa3f8, 0x676f02d9, 0x8d2a4c8a,
     0xfffa3942, 0x8771f681, 0x6d9d6122, 0xfde5380c, 0xa4beea44, 0x4bdecfa9, 0xf6bb4b60, 0xbebfbc70,
     0x289b7ec6, 0xeaa127fa, 0xd4ef3085, 0x04881d05, 0xd9d4d039, 0xe6db99e5, 0x1fa27cf8, 0xc4ac5665,
     0xf4292244, 0x432aff97, 0xab9423a7, 0xfc93a039, 0x655b59c3, 0x8f0ccc92, 0xffeff47d, 0x85845dd1,
     0x6fa87e4f, 0xfe2ce6e0, 0xa3014314, 0x4e0811a1, 0xf7537e82, 0xbd3af235, 0x2ad7d2bb, 0xeb86d391]"

definition md5_s :: "nat list" where
  "md5_s =
    [7, 12, 17, 22, 7, 12, 17, 22, 7, 12, 17, 22, 7, 12, 17, 22,
     5, 9, 14, 20, 5, 9, 14, 20, 5, 9, 14, 20, 5, 9, 14, 20,
     4, 11, 16, 23, 4, 11, 16, 23, 4, 11, 16, 23, 4, 11, 16, 23,
     6, 10, 15, 21, 6, 10, 15, 21, 6, 10, 15, 21, 6, 10, 15, 21]"

definition rotl32 :: "w32 \<Rightarrow> nat \<Rightarrow> w32" where
  "rotl32 x n = push_bit n x OR drop_bit (32 - n) x"

definition md5_step :: "w32 list \<Rightarrow> nat \<Rightarrow> md5_state \<Rightarrow> md5_state" where
  "md5_step M i st =
     (case st of (A, B, C, D) \<Rightarrow>
        let (F, g) =
              (if i < 16 then ((B AND C) OR (NOT B AND D), i)
               else if i < 32 then ((D AND B) OR (NOT D AND C), (5 * i + 1) mod 16)
               else if i < 48 then (B XOR C XOR D, (3 * i + 5) mod 16)
               else (C XOR (B OR NOT D), (7 * i) mod 16));
            F' = F + A + md5_K ! i + M ! g
        in (D, B + rotl32 F' (md5_s ! i), B, C))"

definition md5_block :: "md5_state \<Rightarrow> w32 list \<Rightarrow> md5_state" where
  "md5_block h M =
     (case h of (a0, b0, c0, d0) \<Rightarrow>
        case fold (md5_step M) [0..<64] h of (A, B, C, D) \<Rightarrow>
          (a0 + A, b0 + B, c0 + C, d0 + D))"

fun le_words :: "content \<Rightarrow> w32 list" where
  "le_words (a # b # c # d # rest) =
     (of_char a + push_bit 8 (of_char b) + push_bit 16 (of_char c) + push_bit 24 (of_char d))
     # le_words rest"
| "le_words rest = []"

fun blocks :: "nat \<Rightarrow> w32 list \<Rightarrow> w32 list list" where
  "blocks 0 ws = []"
| "blocks (Suc n) ws = take 16 ws # blocks n (drop 16 ws)"

definition le_bytes :: "nat \<Rightarrow> nat \<Rightarrow> content" where
  "le_bytes k n = map (\<lambda>i. char_of (n div 256 ^ i)) [0..<k]"

definition md5_pad :: "content \<Rightarrow> content" where
  "md5_pad m =
     m @ [char_of (128 :: nat)]
       @ replicate ((55 + 64 - length m mod 64) mod 64) (char_of (0 :: nat))
       @ le_bytes 8 (8 * length m mod 2 ^ 64)"

definition md5_init :: md5_state where
  "md5_init = (0x67452301, 0xefcdab89, 0x98badcfe, 0x10325476)"

definition md5 :: "content \<Rightarrow> md5_state" where
  "md5 m =
     (let ws = le_words (md5_pad m)
      in fold (\<lambda>M h. md5_block h M) (blocks (length ws div 16) ws) md5_init)"

definition hexdigit :: "nat \<Rightarrow> char" where
  "hexdigit n = ''0123456789abcdef'' ! (n mod 16)"

definition hex_word :: "w32 \<Rightarrow> string" where
  "hex_word w =
     concat (map (\<lambda>i. let b = unat (drop_bit (8 * i) w) mod 256
                       in [hexdigit (b div 16), hexdigit b]) [0, 1, 2, 3])"

definition hexdigest :: "md5_state \<Rightarrow> string" where
  "hexdigest h = (case h of (a, b, c, d) \<Rightarrow> hex_word a @ hex_word b @ hex_word c @ hex_word d)"

text \<open>
  Two messages of 128 bytes that differ in six bytes and have the same MD5 digest (Wang
  and Yu, 2004).
\<close>

definition collision_a :: content where
  "collision_a =
    [
     CHR 0xD1, CHR 0x31, CHR 0xDD, CHR 0x02, CHR 0xC5, CHR 0xE6, CHR 0xEE, CHR 0xC4,
     CHR 0x69, CHR 0x3D, CHR 0x9A, CHR 0x06, CHR 0x98, CHR 0xAF, CHR 0xF9, CHR 0x5C,
     CHR 0x2F, CHR 0xCA, CHR 0xB5, CHR 0x87, CHR 0x12, CHR 0x46, CHR 0x7E, CHR 0xAB,
     CHR 0x40, CHR 0x04, CHR 0x58, CHR 0x3E, CHR 0xB8, CHR 0xFB, CHR 0x7F, CHR 0x89,
     CHR 0x55, CHR 0xAD, CHR 0x34, CHR 0x06, CHR 0x09, CHR 0xF4, CHR 0xB3, CHR 0x02,
     CHR 0x83, CHR 0xE4, CHR 0x88, CHR 0x83, CHR 0x25, CHR 0x71, CHR 0x41, CHR 0x5A,
     CHR 0x08, CHR 0x51, CHR 0x25, CHR 0xE8, CHR 0xF7, CHR 0xCD, CHR 0xC9, CHR 0x9F,
     CHR 0xD9, CHR 0x1D, CHR 0xBD, CHR 0xF2, CHR 0x80, CHR 0x37, CHR 0x3C, CHR 0x5B,
     CHR 0xD8, CHR 0x82, CHR 0x3E, CHR 0x31, CHR 0x56, CHR 0x34, CHR 0x8F, CHR 0x5B,
     CHR 0xAE, CHR 0x6D, CHR 0xAC, CHR 0xD4, CHR 0x36, CHR 0xC9, CHR 0x19, CHR 0xC6,
     CHR 0xDD, CHR 0x53, CHR 0xE2, CHR 0xB4, CHR 0x87, CHR 0xDA, CHR 0x03, CHR 0xFD,
     CHR 0x02, CHR 0x39, CHR 0x63, CHR 0x06, CHR 0xD2, CHR 0x48, CHR 0xCD, CHR 0xA0,
     CHR 0xE9, CHR 0x9F, CHR 0x33, CHR 0x42, CHR 0x0F, CHR 0x57, CHR 0x7E, CHR 0xE8,
     CHR 0xCE, CHR 0x54, CHR 0xB6, CHR 0x70, CHR 0x80, CHR 0xA8, CHR 0x0D, CHR 0x1E,
     CHR 0xC6, CHR 0x98, CHR 0x21, CHR 0xBC, CHR 0xB6, CHR 0xA8, CHR 0x83, CHR 0x93,
     CHR 0x96, CHR 0xF9, CHR 0x65, CHR 0x2B, CHR 0x6F, CHR 0xF7, CHR 0x2A, CHR 0x70]"

definition collision_b :: content where
  "collision_b =
    [
     CHR 0xD1, CHR 0x31, CHR 0xDD, CHR 0x02, CHR 0xC5, CHR 0xE6, CHR 0xEE, CHR 0xC4,
     CHR 0x69, CHR 0x3D, CHR 0x9A, CHR 0x06, CHR 0x98, CHR 0xAF, CHR 0xF9, CHR 0x5C,
     CHR 0x2F, CHR 0xCA, CHR 0xB5, CHR 0x07, CHR 0x12, CHR 0x46, CHR 0x7E, CHR 0xAB,
     CHR 0x40, CHR 0x04, CHR 0x58, CHR 0x3E, CHR 0xB8, CHR 0xFB, CHR 0x7F, CHR 0x89,
     CHR 0x55, CHR 0xAD, CHR 0x34, CHR 0x06, CHR 0x09, CHR 0xF4, CHR 0xB3, CHR 0x02,
     CHR 0x83, CHR 0xE4, CHR 0x88, CHR 0x83, CHR 0x25, CHR 0xF1, CHR 0x41, CHR 0x5A,
     CHR 0x08, CHR 0x51, CHR 0x25, CHR 0xE8, CHR 0xF7, CHR 0xCD, CHR 0xC9, CHR 0x9F,
     CHR 0xD9, CHR 0x1D, CHR 0xBD, CHR 0x72, CHR 0x80, CHR 0x37, CHR 0x3C, CHR 0x5B,
     CHR 0xD8, CHR 0x82, CHR 0x3E, CHR 0x31, CHR 0x56, CHR 0x34, CHR 0x8F, CHR 0x5B,
     CHR 0xAE, CHR 0x6D, CHR 0xAC, CHR 0xD4, CHR 0x36, CHR 0xC9, CHR 0x19, CHR 0xC6,
     CHR 0xDD, CHR 0x53, CHR 0xE2, CHR 0x34, CHR 0x87, CHR 0xDA, CHR 0x03, CHR 0xFD,
     CHR 0x02, CHR 0x39, CHR 0x63, CHR 0x06, CHR 0xD2, CHR 0x48, CHR 0xCD, CHR 0xA0,
     CHR 0xE9, CHR 0x9F, CHR 0x33, CHR 0x42, CHR 0x0F, CHR 0x57, CHR 0x7E, CHR 0xE8,
     CHR 0xCE, CHR 0x54, CHR 0xB6, CHR 0x70, CHR 0x80, CHR 0x28, CHR 0x0D, CHR 0x1E,
     CHR 0xC6, CHR 0x98, CHR 0x21, CHR 0xBC, CHR 0xB6, CHR 0xA8, CHR 0x83, CHR 0x93,
     CHR 0x96, CHR 0xF9, CHR 0x65, CHR 0xAB, CHR 0x6F, CHR 0xF7, CHR 0x2A, CHR 0x70]"

section \<open>\<^verbatim>\<open>FileSyncer.py\<close>\<close>

subsection \<open>\<^verbatim>\<open>get_md5\<close>\<close>

text \<open>
  The loop \<^verbatim>\<open>while chunk := f.read(8192): file_hash.update(chunk)\<close>. The hash object is
  the bytes fed to it so far: \<^verbatim>\<open>update\<close> appends.
\<close>

function read_chunks :: "content \<Rightarrow> content \<Rightarrow> content" where
  "read_chunks rest fed =
     (let chunk = take 8192 rest
      in if chunk = [] then fed else read_chunks (drop 8192 rest) (fed @ chunk))"
  by pat_completeness auto
termination
  by (relation "measure (\<lambda>(rest, fed). length rest)") auto

declare read_chunks.simps [simp del]

definition get_md5 :: "node \<Rightarrow> path \<Rightarrow> error + string" where
  "get_md5 fs filename =
     (case read_file fs filename of
        Inl e \<Rightarrow> Inl e
      | Inr c \<Rightarrow> Inr (hexdigest (md5 (read_chunks c []))))"

subsection \<open>\<^verbatim>\<open>sync_folders\<close>\<close>

text \<open>
  The arguments of a run. \<open>timestamp\<close> is what \<^verbatim>\<open>time.strftime\<close> returns; it only
  appears in the text of the log. \<^verbatim>\<open>print\<close> repeats on the console what is written to
  the log and is left out.
\<close>

record args =
  source_folder :: path
  replica_folder :: path
  log_file :: path
  backup_interval :: nat
  timestamp :: string

text \<open>
  The state of a run: the filesystem, the three counters and the events entered into
  \<^verbatim>\<open>sync_scheduler\<close>, each with its delay and priority. An exception ends the run; the
  result is then \<open>Inl\<close> of the error and of the state reached.
\<close>

record state =
  disk :: node
  file_copied_counter :: nat
  file_removed_counter :: nat
  file_identical_counter :: nat
  queue :: "(nat \<times> nat) list"

type_synonym result = "(error \<times> state) + state"

definition path_str :: "path \<Rightarrow> string" where
  "path_str p = concat (map (\<lambda>x. CHR ''/'' # x) p)"

fun nat_str :: "nat \<Rightarrow> string" where
  "nat_str n =
     (if n < 10 then [''0123456789'' ! n]
      else nat_str (n div 10) @ [''0123456789'' ! (n mod 10)])"

declare nat_str.simps [simp del]

text \<open>\<^verbatim>\<open>with open(log_file, "a") as f: f.write(text)\<close>\<close>

definition write_log :: "args \<Rightarrow> string \<Rightarrow> state \<Rightarrow> result" where
  "write_log a text st =
     (case append_file (disk st) (log_file a) text of
        Inl e \<Rightarrow> Inl (e, st)
      | Inr fs' \<Rightarrow> Inr (st\<lparr>disk := fs'\<rparr>))"

definition log_line :: "args \<Rightarrow> path \<Rightarrow> string \<Rightarrow> string" where
  "log_line a p what = timestamp a @ '' - '' @ path_str p @ what @ [CHR 0x0A]"

text \<open>The loop over \<open>files\<close> of one triple of the walk of the replica (lines 34 to 42).\<close>

fun remove_files :: "args \<Rightarrow> path \<Rightarrow> name list \<Rightarrow> state \<Rightarrow> result" where
  "remove_files a root [] st = Inr st"
| "remove_files a root (name # names) st =
     (let replica_file = root @ [name];
          source_file = source_folder a @ os_path_relpath replica_file (replica_folder a)
      in if \<not> os_path_exists (disk st) source_file then
           (case os_remove (disk st) replica_file of
              Inl e \<Rightarrow> Inl (e, st)
            | Inr fs' \<Rightarrow>
               (case write_log a (log_line a replica_file '' removed from replica folder'')
                       (st\<lparr>disk := fs', file_removed_counter := file_removed_counter st + 1\<rparr>) of
                  Inl r \<Rightarrow> Inl r
                | Inr st' \<Rightarrow> remove_files a root names st'))
         else remove_files a root names st)"

text \<open>The loop over \<open>dirs\<close> of one triple (lines 43 to 50).\<close>

fun remove_dirs :: "args \<Rightarrow> path \<Rightarrow> name list \<Rightarrow> state \<Rightarrow> result" where
  "remove_dirs a root [] st = Inr st"
| "remove_dirs a root (name # names) st =
     (let replica_dir = root @ [name];
          source_dir = source_folder a @ os_path_relpath replica_dir (replica_folder a)
      in if \<not> os_path_exists (disk st) source_dir then
           (case os_rmdir (disk st) replica_dir of
              Inl e \<Rightarrow> Inl (e, st)
            | Inr fs' \<Rightarrow>
               (case write_log a (log_line a replica_dir '' removed from replica folder'')
                       (st\<lparr>disk := fs'\<rparr>) of
                  Inl r \<Rightarrow> Inl r
                | Inr st' \<Rightarrow> remove_dirs a root names st'))
         else remove_dirs a root names st)"

text \<open>
  The loop over the triples of \<^verbatim>\<open>os.walk(replica_folder, topdown=False)\<close> (line 33). The
  triples are those of the tree as the loop finds it: the body removes entries of
  directories that were listed before, and writes to the log file.
\<close>

fun deletion_pass :: "args \<Rightarrow> (path \<times> name list \<times> name list) list \<Rightarrow> state \<Rightarrow> result" where
  "deletion_pass a [] st = Inr st"
| "deletion_pass a ((root, dirs, files) # rest) st =
     (case remove_files a root files st of
        Inl r \<Rightarrow> Inl r
      | Inr st1 \<Rightarrow>
         (case remove_dirs a root dirs st1 of
            Inl r \<Rightarrow> Inl r
          | Inr st2 \<Rightarrow> deletion_pass a rest st2))"

text \<open>
  The test of line 66,
  \<^verbatim>\<open>os.path.exists(replica_file) and get_md5(source_file) == get_md5(replica_file)\<close>.
\<close>

definition identical_check :: "node \<Rightarrow> path \<Rightarrow> path \<Rightarrow> error + bool" where
  "identical_check fs source_file replica_file =
     (if \<not> os_path_exists fs replica_file then Inr False
      else (case get_md5 fs source_file of
              Inl e \<Rightarrow> Inl e
            | Inr h1 \<Rightarrow>
               (case get_md5 fs replica_file of
                  Inl e \<Rightarrow> Inl e
                | Inr h2 \<Rightarrow> Inr (h1 = h2))))"

text \<open>The body of the loop over \<open>source_files\<close> (lines 54 to 78).\<close>

definition copy_file :: "args \<Rightarrow> path \<Rightarrow> state \<Rightarrow> result" where
  "copy_file a source_file st =
     (let rel_path = os_path_relpath source_file (source_folder a);
          replica_file = replica_folder a @ rel_path;
          replica_dir = os_path_dirname replica_file
      in case (if \<not> os_path_exists (disk st) replica_dir
               then os_makedirs (disk st) replica_dir else Inr (disk st)) of
           Inl e \<Rightarrow> Inl (e, st)
         | Inr fs1 \<Rightarrow>
            (case identical_check fs1 source_file replica_file of
               Inl e \<Rightarrow> Inl (e, st\<lparr>disk := fs1\<rparr>)
             | Inr True \<Rightarrow>
                 write_log a
                   (log_line a source_file '' already exists in replica folder and is identical'')
                   (st\<lparr>disk := fs1, file_identical_counter := file_identical_counter st + 1\<rparr>)
             | Inr False \<Rightarrow>
                (case shutil_copy2 fs1 source_file replica_file of
                   Inl e \<Rightarrow> Inl (e, st\<lparr>disk := fs1\<rparr>)
                 | Inr fs2 \<Rightarrow>
                     write_log a (log_line a source_file '' copied to replica folder'')
                       (st\<lparr>disk := fs2, file_copied_counter := file_copied_counter st + 1\<rparr>))))"

fun copy_pass :: "args \<Rightarrow> path list \<Rightarrow> state \<Rightarrow> result" where
  "copy_pass a [] st = Inr st"
| "copy_pass a (source_file # rest) st =
     (case copy_file a source_file st of
        Inl r \<Rightarrow> Inl r
      | Inr st' \<Rightarrow> copy_pass a rest st')"

text \<open>The three lines of the summary (lines 83 to 86).\<close>

definition summary :: "state \<Rightarrow> string" where
  "summary st =
     ''Files copied - '' @ nat_str (file_copied_counter st) @ [CHR 0x0A] @
     ''Files removed - '' @ nat_str (file_removed_counter st) @ [CHR 0x0A] @
     ''Files unaltered - '' @ nat_str (file_identical_counter st) @ [CHR 0x0A]"

text \<open>The list \<open>source_files\<close> (lines 27 to 30).\<close>

definition scan :: "node \<Rightarrow> path \<Rightarrow> path list" where
  "scan fs source =
     concat (map (\<lambda>(root, dirs, files). map (\<lambda>name. root @ [name]) files)
                 (os_walk fs source True))"

text \<open>
  One run. The counters start at zero. The last statement enters the next run into the
  scheduler, \<open>backup_interval\<close> after the time of that call and with priority 1.
\<close>

definition sync_folders :: "args \<Rightarrow> state \<Rightarrow> result" where
  "sync_folders a st0 =
     (let st = st0\<lparr>file_copied_counter := 0, file_removed_counter := 0,
                    file_identical_counter := 0\<rparr>;
          source_files = scan (disk st) (source_folder a)
      in case deletion_pass a (os_walk (disk st) (replica_folder a) False) st of
           Inl r \<Rightarrow> Inl r
         | Inr st1 \<Rightarrow>
            (case copy_pass a source_files st1 of
               Inl r \<Rightarrow> Inl r
             | Inr st2 \<Rightarrow>
                (case write_log a (summary st2) st2 of
                   Inl r \<Rightarrow> Inl r
                 | Inr st3 \<Rightarrow> Inr (st3\<lparr>queue := queue st3 @ [(backup_interval a, 1)]\<rparr>))))"

text \<open>The state in which a run ends, with or without an exception.\<close>

definition final :: "result \<Rightarrow> state" where
  "final r = (case r of Inl (e, st) \<Rightarrow> st | Inr st \<Rightarrow> st)"

section \<open>Auxiliary notions\<close>

text \<open>A directory exists at a path.\<close>

definition is_dir_at :: "node \<Rightarrow> path \<Rightarrow> bool" where
  "is_dir_at n p = (\<exists>es. lookup n p = Some (Dir es))"

text \<open>
  A pass as a sequence of steps that stops at the first exception. The deletion pass is
  such a sequence over the entries that the triples of the walk list, the files of a
  triple before its directories.
\<close>

fun run_steps :: "('x \<Rightarrow> state \<Rightarrow> result) \<Rightarrow> 'x list \<Rightarrow> state \<Rightarrow> result" where
  "run_steps f [] st = Inr st"
| "run_steps f (x # xs) st = (case f x st of Inl r \<Rightarrow> Inl r | Inr st' \<Rightarrow> run_steps f xs st')"

definition del_step :: "args \<Rightarrow> bool \<times> path \<Rightarrow> state \<Rightarrow> result" where
  "del_step a e st =
     (case e of (is_file, p) \<Rightarrow>
        if \<not> os_path_exists (disk st) (source_folder a @ os_path_relpath p (replica_folder a)) then
          (case (if is_file then os_remove (disk st) p else os_rmdir (disk st) p) of
             Inl e \<Rightarrow> Inl (e, st)
           | Inr t \<Rightarrow>
               write_log a (log_line a p '' removed from replica folder'')
                 (if is_file
                  then st\<lparr>disk := t, file_removed_counter := file_removed_counter st + 1\<rparr>
                  else st\<lparr>disk := t\<rparr>))
        else Inr st)"

definition del_entries :: "(path \<times> name list \<times> name list) list \<Rightarrow> (bool \<times> path) list" where
  "del_entries ts =
     concat (map (\<lambda>(root, dirs, files).
                    map (\<lambda>x. (True, root @ [x])) files @ map (\<lambda>x. (False, root @ [x])) dirs) ts)"

text \<open>
  The source folder, the replica folder and the log file are apart: none of the three
  paths is a prefix of another one.
\<close>

definition separate :: "args \<Rightarrow> bool" where
  "separate a \<longleftrightarrow>
     source_folder a \<parallel> replica_folder a \<and>
     log_file a \<parallel> source_folder a \<and>
     log_file a \<parallel> replica_folder a"

text \<open>
  The paths that a run may touch: the replica folder, what lies beneath it, the
  directories above it, and the log file.
\<close>

definition footprint :: "args \<Rightarrow> path \<Rightarrow> bool" where
  "footprint a q \<longleftrightarrow>
     prefix (replica_folder a) q \<or> prefix q (replica_folder a) \<or> q = log_file a"

definition frame :: "args \<Rightarrow> node \<Rightarrow> node \<Rightarrow> bool" where
  "frame a t t' \<longleftrightarrow> (\<forall>q. \<not> footprint a q \<longrightarrow> stat t' q = stat t q)"

text \<open>
  A path is the directory of the replica file of one of the given source files, or lies
  above that directory.
\<close>

definition made_for :: "args \<Rightarrow> path list \<Rightarrow> path \<Rightarrow> bool" where
  "made_for a fs q \<longleftrightarrow>
     (\<exists>f \<in> set fs.
        prefix q (os_path_dirname (replica_folder a @ os_path_relpath f (source_folder a))))"

definition dirs_from :: "args \<Rightarrow> path list \<Rightarrow> node \<Rightarrow> node \<Rightarrow> bool" where
  "dirs_from a fs t t' \<longleftrightarrow>
     (\<forall>q. stat t' q = Some KDir \<longrightarrow> stat t q = Some KDir \<or> made_for a fs q)"

text \<open>
  The path that the deletion pass tests for a replica path holds nothing: the replica
  path is an orphan.
\<close>

definition gone :: "args \<Rightarrow> node \<Rightarrow> path \<Rightarrow> bool" where
  "gone a t p \<longleftrightarrow> stat t (source_folder a @ os_path_relpath p (replica_folder a)) = None"

text \<open>
  A relative path holds a regular file in the source and a regular file with the same
  digest in the replica. No path below the replica folder is an orphan.
\<close>

definition synced :: "args \<Rightarrow> node \<Rightarrow> path \<Rightarrow> bool" where
  "synced a t r \<longleftrightarrow>
     (\<exists>c c'. stat t (source_folder a @ r) = Some (KFile c) \<and>
             stat t (replica_folder a @ r) = Some (KFile c') \<and>
             hexdigest (md5 c') = hexdigest (md5 c))"

definition orphan_free :: "args \<Rightarrow> node \<Rightarrow> bool" where
  "orphan_free a t \<longleftrightarrow>
     (\<forall>rel. rel \<noteq> [] \<longrightarrow> stat t (replica_folder a @ rel) \<noteq> None \<longrightarrow>
            stat t (source_folder a @ rel) \<noteq> None)"

section \<open>Paths, lookup and update\<close>

lemma child_File [simp]: "child (File c) x = None"
  by (simp add: child_def)

lemma child_Dir [simp]: "child (Dir es) x = map_of es x"
  by (simp add: child_def)

lemma child_SomeD: "child n x = Some m \<Longrightarrow> \<exists>es. n = Dir es"
  by (cases n) simp_all

lemma child_set_child:
  "child (set_child n x v) y = (if is_Dir n \<and> y = x then v else child n y)"
  by (cases n; cases v) (simp_all add: AList.delete_conv' AList.update_conv')

lemma lookup_append:
  "lookup n (p @ q) = (case lookup n p of None \<Rightarrow> None | Some m \<Rightarrow> lookup m q)"
  by (induction p arbitrary: n) (auto split: option.splits)

lemma lookup_File [simp]: "lookup (File c) p = (if p = [] then Some (File c) else None)"
  by (cases p) simp_all

lemma lookup_snoc:
  "lookup n (p @ [x]) = (case lookup n p of None \<Rightarrow> None | Some m \<Rightarrow> child m x)"
  by (simp add: lookup_append split: option.splits)

lemma stat_None: "stat n p = None \<longleftrightarrow> lookup n p = None"
  by (simp add: stat_def)

lemma kind_of_KDir [simp]: "kind_of m = KDir \<longleftrightarrow> (\<exists>es. m = Dir es)"
  by (cases m) simp_all

lemma kind_of_KFile [simp]: "kind_of m = KFile c \<longleftrightarrow> m = File c"
  by (cases m) simp_all

lemma stat_KDir: "stat n p = Some KDir \<longleftrightarrow> (\<exists>es. lookup n p = Some (Dir es))"
  by (cases "lookup n p") (simp_all add: stat_def)

lemma stat_KFile: "stat n p = Some (KFile c) \<longleftrightarrow> lookup n p = Some (File c)"
  by (cases "lookup n p") (simp_all add: stat_def)

lemma lookup_parent:
  assumes "lookup n p = Some m" "p \<noteq> []"
  shows "\<exists>es. lookup n (butlast p) = Some (Dir es)"
proof -
  from assms(2) have p: "p = butlast p @ [last p]" by simp
  from assms(1) obtain k where k: "lookup n (butlast p) = Some k" "child k (last p) = Some m"
    by (subst (asm) p) (auto simp: lookup_snoc split: option.splits)
  then show ?thesis by (cases k) auto
qed

lemma stat_put:
  "is_dir_at n (butlast p) \<Longrightarrow> p \<noteq> [] \<Longrightarrow>
   stat (put p v n) q =
     (if prefix p q then (case v of None \<Rightarrow> None | Some m \<Rightarrow> stat m (drop (length p) q))
      else stat n q)"
proof (induction p v n arbitrary: q rule: put.induct)
  case (1 v n)
  then show ?case by simp
next
  case (2 x v n)
  then obtain es where n: "n = Dir es" by (auto simp: is_dir_at_def)
  show ?case
  proof (cases q)
    case Nil
    then show ?thesis by (cases v) (simp_all add: n stat_def)
  next
    case (Cons y q')
    then show ?thesis
      by (cases v) (auto simp: n stat_def AList.delete_conv' AList.update_conv' split: option.splits)
  qed
next
  case (3 x x' p v n)
  from "3.prems"(1) obtain es m where n: "n = Dir es" and m: "map_of es x = Some m"
    and d: "is_dir_at m (butlast (x' # p))"
    by (cases n) (auto simp: is_dir_at_def split: option.splits if_splits)
  have IH: "\<And>q. stat (put (x' # p) v m) q =
     (if prefix (x' # p) q then (case v of None \<Rightarrow> None | Some m \<Rightarrow> stat m (drop (length (x' # p)) q))
      else stat m q)"
    using "3.IH"[of m] d m n by simp
  show ?case
  proof (cases q)
    case Nil
    then show ?thesis by (simp add: n m stat_def)
  next
    case (Cons y q')
    show ?thesis
    proof (cases "y = x")
      case True
      have "stat (put (x # x' # p) v n) q = stat (put (x' # p) v m) q'"
        by (simp add: n m Cons True stat_def AList.update_conv')
      moreover have "stat n q = stat m q'" by (simp add: n m Cons True stat_def)
      ultimately show ?thesis using IH[of q'] unfolding Cons True by (cases v) simp_all
    next
      case False
      then show ?thesis by (simp add: n m Cons stat_def AList.update_conv')
    qed
  qed
qed

lemma wf_child: "wf_fs n \<Longrightarrow> child n x = Some m \<Longrightarrow> wf_fs m"
  by (cases n) (auto dest!: map_of_SomeD)

lemma wf_lookup: "wf_fs n \<Longrightarrow> lookup n p = Some m \<Longrightarrow> wf_fs m"
  by (induction p arbitrary: n) (auto split: option.splits dest: wf_child)

lemma set_update_subset: "set (AList.update x m es) \<subseteq> insert (x, m) (set es)"
  by (induction es) auto

lemma set_delete_subset: "set (AList.delete x es) \<subseteq> set es"
  by (induction es) auto

lemma wf_set_child: "wf_fs n \<Longrightarrow> (\<And>m. v = Some m \<Longrightarrow> wf_fs m) \<Longrightarrow> wf_fs (set_child n x v)"
proof (cases n)
  case (File c)
  then show ?thesis by simp
next
  case (Dir es)
  assume w: "wf_fs n" and v: "\<And>m. v = Some m \<Longrightarrow> wf_fs m"
  show ?thesis
  proof (cases v)
    case None
    then show ?thesis using w Dir set_delete_subset[of x es]
      by (auto simp: AList.distinct_delete)
  next
    case (Some m)
    then show ?thesis using w Dir v set_update_subset[of x m es]
      by (auto simp: AList.distinct_update)
  qed
qed

lemma wf_put: "wf_fs n \<Longrightarrow> (\<And>m. v = Some m \<Longrightarrow> wf_fs m) \<Longrightarrow> wf_fs (put p v n)"
proof (induction p v n rule: put.induct)
  case (3 x x' p v n)
  show ?case
  proof (cases "child n x")
    case None
    then show ?thesis using "3.prems" by simp
  next
    case (Some m)
    then have "wf_fs (put (x' # p) v m)" using 3 wf_child by blast
    then have "wf_fs (set_child n x (Some (put (x' # p) v m)))"
      using "3.prems"(1) by (intro wf_set_child) simp_all
    then show ?thesis using Some by simp
  qed
qed (simp_all add: wf_set_child)

section \<open>What the operations do\<close>

lemma lookup_below_None: "lookup n p = None \<Longrightarrow> lookup n (p @ r) = None"
  by (simp add: lookup_append)

lemma lookup_prefix_exists: "lookup n q \<noteq> None \<Longrightarrow> prefix p q \<Longrightarrow> lookup n p \<noteq> None"
  by (auto simp: prefix_def lookup_append split: option.splits)

lemma lookup_below_File: "lookup n p = Some (File c) \<Longrightarrow> r \<noteq> [] \<Longrightarrow> lookup n (p @ r) = None"
  by (simp add: lookup_append)

lemma lookup_Dir_Nil [simp]: "lookup (Dir []) r = (if r = [] then Some (Dir []) else None)"
  by (cases r) simp_all

lemma stat_root [simp]: "stat n [] = Some (kind_of n)"
  by (simp add: stat_def)

lemma os_remove_Inr:
  assumes "os_remove t p = Inr t'"
  shows "\<exists>c. stat t p = Some (KFile c)" and "stat t' = (stat t)(p := None)"
    and "wf_fs t \<Longrightarrow> wf_fs t'"
proof -
  from assms obtain c where c: "lookup t p = Some (File c)" and p: "p \<noteq> []"
    and t': "t' = put p None t"
    by (auto simp: os_remove_def split: option.splits node.splits if_splits)
  show "\<exists>c. stat t p = Some (KFile c)" using c by (simp add: stat_KFile)
  have d: "is_dir_at t (butlast p)" using lookup_parent[OF c p] by (simp add: is_dir_at_def)
  show "stat t' = (stat t)(p := None)"
  proof
    fix q
    show "stat t' q = ((stat t)(p := None)) q"
    proof (cases "prefix p q")
      case True
      then obtain r where q: "q = p @ r" by (auto simp: prefix_def)
      show ?thesis using lookup_below_File[OF c, of r] stat_put[OF d p, of None q]
        by (cases "r = []") (simp_all add: q t' stat_def)
    next
      case False
      then show ?thesis using stat_put[OF d p, of None q] by (auto simp: t')
    qed
  qed
  show "wf_fs t \<Longrightarrow> wf_fs t'" unfolding t' by (rule wf_put) simp_all
qed

lemma os_rmdir_Inr:
  assumes "os_rmdir t p = Inr t'"
  shows "lookup t p = Some (Dir [])" and "stat t' = (stat t)(p := None)"
    and "wf_fs t \<Longrightarrow> wf_fs t'"
proof -
  from assms have c: "lookup t p = Some (Dir [])" and p: "p \<noteq> []"
    and t': "t' = put p None t"
    by (auto simp: os_rmdir_def split: option.splits node.splits if_splits)
  show "lookup t p = Some (Dir [])" by (rule c)
  have d: "is_dir_at t (butlast p)" using lookup_parent[OF c p] by (simp add: is_dir_at_def)
  show "stat t' = (stat t)(p := None)"
  proof
    fix q
    show "stat t' q = ((stat t)(p := None)) q"
    proof (cases "prefix p q")
      case True
      then obtain r where q: "q = p @ r" by (auto simp: prefix_def)
      show ?thesis using c stat_put[OF d p, of None q]
        by (cases "r = []") (simp_all add: q t' lookup_append stat_def)
    next
      case False
      then show ?thesis using stat_put[OF d p, of None q] by (auto simp: t')
    qed
  qed
  show "wf_fs t \<Longrightarrow> wf_fs t'" unfolding t' by (rule wf_put) simp_all
qed

lemma stat_put_new:
  assumes d: "is_dir_at t (butlast p)" and p: "p \<noteq> []"
    and leaf: "\<And>r. r \<noteq> [] \<Longrightarrow> lookup m r = None"
    and old: "\<And>r. r \<noteq> [] \<Longrightarrow> lookup t (p @ r) = None"
  shows "stat (put p (Some m) t) = (stat t)(p \<mapsto> kind_of m)"
proof
  fix q
  show "stat (put p (Some m) t) q = ((stat t)(p \<mapsto> kind_of m)) q"
  proof (cases "prefix p q")
    case True
    then obtain r where q: "q = p @ r" by (auto simp: prefix_def)
    show ?thesis using stat_put[OF d p, of "Some m" q] leaf[of r] old[of r]
      by (cases "r = []") (simp_all add: q stat_def)
  next
    case False
    then show ?thesis using stat_put[OF d p, of "Some m" q] by auto
  qed
qed

lemma os_mkdir_Inr:
  assumes "os_mkdir t p = Inr t'"
  shows "stat t p = None" and "stat t (butlast p) = Some KDir"
    and "stat t' = (stat t)(p \<mapsto> KDir)" and "wf_fs t \<Longrightarrow> wf_fs t'"
proof -
  from assms obtain es where n: "lookup t p = None" and d: "lookup t (butlast p) = Some (Dir es)"
    and t': "t' = put p (Some (Dir [])) t"
    by (auto simp: os_mkdir_def split: option.splits node.splits if_splits)
  from n have p: "p \<noteq> []" by auto
  show "stat t p = None" using n by (simp add: stat_None)
  show "stat t (butlast p) = Some KDir" using d by (simp add: stat_KDir)
  have "stat (put p (Some (Dir [])) t) = (stat t)(p \<mapsto> kind_of (Dir []))"
    by (rule stat_put_new) (use d p n in \<open>simp_all add: is_dir_at_def lookup_append\<close>)
  then show "stat t' = (stat t)(p \<mapsto> KDir)" by (simp add: t')
  show "wf_fs t \<Longrightarrow> wf_fs t'" unfolding t' by (rule wf_put) auto
qed

lemma write_file_Inr:
  assumes "write_file t p c = Inr t'" and p: "p \<noteq> []"
  shows "stat t' = (stat t)(p \<mapsto> KFile c)" and "wf_fs t \<Longrightarrow> wf_fs t'"
    and "stat t p \<noteq> Some KDir" and "stat t (butlast p) = Some KDir"
proof -
  from assms have t': "t' = put p (Some (File c)) t"
    and cases: "(\<exists>c'. lookup t p = Some (File c')) \<or>
                (lookup t p = None \<and> (\<exists>es. lookup t (butlast p) = Some (Dir es)))"
    by (auto simp: write_file_def split: option.splits node.splits if_splits)
  have d: "is_dir_at t (butlast p)"
    using cases lookup_parent[OF _ p] by (auto simp: is_dir_at_def)
  have "stat (put p (Some (File c)) t) = (stat t)(p \<mapsto> kind_of (File c))"
    by (rule stat_put_new) (use d p cases in \<open>auto simp: lookup_append\<close>)
  then show "stat t' = (stat t)(p \<mapsto> KFile c)" by (simp add: t')
  show "wf_fs t \<Longrightarrow> wf_fs t'" unfolding t' by (rule wf_put) auto
  show "stat t p \<noteq> Some KDir" using cases by (auto simp: stat_KDir)
  show "stat t (butlast p) = Some KDir" using d by (simp add: stat_KDir is_dir_at_def)
qed

lemma write_file_succeeds:
  "stat t p = Some (KFile c') \<Longrightarrow> write_file t p c = Inr (put p (Some (File c)) t)"
  by (simp add: write_file_def stat_KFile)

lemma write_file_new:
  "stat t p = None \<Longrightarrow> stat t (butlast p) = Some KDir \<Longrightarrow>
   write_file t p c = Inr (put p (Some (File c)) t)"
  by (auto simp: write_file_def stat_KDir stat_None)

lemma append_file_Inr:
  assumes "append_file t p c = Inr t'" and p: "p \<noteq> []"
  shows "\<exists>c'. stat t' = (stat t)(p \<mapsto> KFile c')" and "wf_fs t \<Longrightarrow> wf_fs t'"
proof -
  from assms(1) obtain c' where w: "write_file t p c' = Inr t'"
    by (auto simp: append_file_def split: option.splits node.splits)
  show "\<exists>c'. stat t' = (stat t)(p \<mapsto> KFile c')" using write_file_Inr(1)[OF w p] by blast
  show "wf_fs t \<Longrightarrow> wf_fs t'" using write_file_Inr(2)[OF w p] .
qed

lemma append_file_succeeds:
  "stat t p = Some (KFile c') \<Longrightarrow> \<exists>t'. append_file t p c = Inr t'"
  by (simp add: append_file_def stat_KFile write_file_def)

lemma read_file_Inr: "read_file t p = Inr c \<longleftrightarrow> stat t p = Some (KFile c)"
  by (auto simp: read_file_def stat_KFile split: option.splits node.splits)

lemma shutil_copy2_Inr:
  assumes "shutil_copy2 t src dst = Inr t'" and "stat t dst \<noteq> Some KDir" and "dst \<noteq> []"
  shows "\<exists>c. stat t src = Some (KFile c) \<and> stat t' = (stat t)(dst \<mapsto> KFile c)"
    and "wf_fs t \<Longrightarrow> wf_fs t'"
proof -
  from assms(2) have nd: "\<not> os_path_isdir t dst"
    by (auto simp: os_path_isdir_def stat_KDir split: option.splits node.splits)
  with assms(1) obtain c where c: "read_file t src = Inr c" and w: "write_file t dst c = Inr t'"
    by (auto simp: shutil_copy2_def Let_def split: if_splits sum.splits)
  show "\<exists>c. stat t src = Some (KFile c) \<and> stat t' = (stat t)(dst \<mapsto> KFile c)"
    using c write_file_Inr(1)[OF w assms(3)] by (auto simp: read_file_Inr)
  show "wf_fs t \<Longrightarrow> wf_fs t'" using write_file_Inr(2)[OF w assms(3)] .
qed

lemma makedirs_rev_Inr:
  "makedirs_rev t rp = Inr t' \<Longrightarrow>
   stat t' = (\<lambda>q. if prefix q (rev rp) \<and> stat t q = None then Some KDir else stat t q)
   \<and> (wf_fs t \<longrightarrow> wf_fs t')"
proof (induction rp arbitrary: t t')
  case Nil
  then show ?case by (simp add: os_mkdir_def)
next
  case (Cons tail rhead)
  let ?p = "rev (tail # rhead)"
  show ?case
  proof (cases "os_path_exists t (rev rhead)")
    case True
    with Cons.prems have mk: "os_mkdir t ?p = Inr t'" by simp
    note m = os_mkdir_Inr[OF mk]
    have ex: "\<And>q. prefix q (rev rhead) \<Longrightarrow> stat t q \<noteq> None"
      using True lookup_prefix_exists[of t "rev rhead"] by (auto simp: os_path_exists_def stat_None)
    have "stat t' q = (if prefix q ?p \<and> stat t q = None then Some KDir else stat t q)" for q
      using m(1,3) ex[of q] by (auto simp: prefix_snoc)
    then show ?thesis using m(4) by auto
  next
    case False
    with Cons.prems obtain t1 where r: "makedirs_rev t rhead = Inr t1"
      and mk: "os_mkdir t1 ?p = Inr t'"
      by (auto split: sum.splits)
    note IH = Cons.IH[OF r] and m = os_mkdir_Inr[OF mk]
    have np: "stat t ?p = None"
      using False lookup_below_None[of t "rev rhead" "[tail]"] by (simp add: os_path_exists_def stat_None)
    have "stat t' q = (if prefix q ?p \<and> stat t q = None then Some KDir else stat t q)" for q
      using m(1,3) IH np by (auto simp: prefix_snoc)
    then show ?thesis using m(4) IH by auto
  qed
qed

lemma os_makedirs_Inr:
  assumes "os_makedirs t p = Inr t'"
  shows "stat t' = (\<lambda>q. if prefix q p \<and> stat t q = None then Some KDir else stat t q)"
    and "wf_fs t \<Longrightarrow> wf_fs t'"
  using makedirs_rev_Inr[of t "rev p" t'] assms by (simp_all add: os_makedirs_def)

lemma read_chunks_eq: "read_chunks rest fed = fed @ rest"
proof (induction rest fed rule: read_chunks.induct)
  case (1 rest fed)
  show ?case
  proof (cases "take 8192 rest = []")
    case True
    then show ?thesis by (subst read_chunks.simps) (simp add: Let_def)
  next
    case False
    then show ?thesis using 1 by (subst read_chunks.simps) (simp add: Let_def)
  qed
qed

lemma get_md5_Inr:
  "get_md5 t p = Inr h \<longleftrightarrow> (\<exists>c. stat t p = Some (KFile c) \<and> h = hexdigest (md5 c))"
  by (auto simp: get_md5_def read_chunks_eq read_file_Inr split: sum.splits)
    (metis read_file_Inr sum.exhaust sum.distinct(1) old.sum.inject(2))

section \<open>The passes as sequences of steps; the walk\<close>

lemma run_steps_append:
  "run_steps f (xs @ ys) st =
     (case run_steps f xs st of Inl r \<Rightarrow> Inl r | Inr st' \<Rightarrow> run_steps f ys st')"
  by (induction xs arbitrary: st) (auto split: sum.splits)

lemma remove_files_steps:
  "remove_files a root names st = run_steps (del_step a) (map (\<lambda>x. (True, root @ [x])) names) st"
  by (induction names arbitrary: st) (auto simp: del_step_def Let_def split: sum.splits)

lemma remove_dirs_steps:
  "remove_dirs a root names st = run_steps (del_step a) (map (\<lambda>x. (False, root @ [x])) names) st"
  by (induction names arbitrary: st) (auto simp: del_step_def Let_def split: sum.splits)

lemma deletion_pass_steps:
  "deletion_pass a ts st = run_steps (del_step a) (del_entries ts) st"
proof (induction ts arbitrary: st)
  case Nil
  then show ?case by (simp add: del_entries_def)
next
  case (Cons t ts)
  obtain root dirs files where t: "t = (root, dirs, files)" by (cases t) auto
  have e: "del_entries ((root, dirs, files) # ts) =
      map (\<lambda>x. (True, root @ [x])) files @ map (\<lambda>x. (False, root @ [x])) dirs @ del_entries ts"
    by (simp add: del_entries_def)
  show ?case
    unfolding t e run_steps_append deletion_pass.simps remove_files_steps remove_dirs_steps
    using Cons.IH by (auto split: sum.splits)
qed

lemma copy_pass_steps: "copy_pass a fs st = run_steps (copy_file a) fs st"
  by (induction fs arbitrary: st) (auto split: sum.splits)

lemma not_is_Dir: "\<not> is_Dir m \<longleftrightarrow> (\<exists>c. m = File c)"
  by (cases m) simp_all

lemma is_Dir_iff: "is_Dir m \<longleftrightarrow> (\<exists>es. m = Dir es)"
  by (cases m) simp_all

lemma in_filenames:
  "distinct (map fst es) \<Longrightarrow> x \<in> set (filenames es) \<longleftrightarrow> (\<exists>c. map_of es x = Some (File c))"
proof -
  assume d: "distinct (map fst es)"
  have "x \<in> set (filenames es) \<longleftrightarrow> (\<exists>m. (x, m) \<in> set es \<and> \<not> is_Dir m)"
    by (force simp: filenames_def)
  also have "\<dots> \<longleftrightarrow> (\<exists>m. map_of es x = Some m \<and> \<not> is_Dir m)"
    using d by auto
  also have "\<dots> \<longleftrightarrow> (\<exists>c. map_of es x = Some (File c))"
    by (metis is_Dir.simps node.exhaust)
  finally show ?thesis .
qed

lemma in_dirnames:
  "distinct (map fst es) \<Longrightarrow> x \<in> set (dirnames es) \<longleftrightarrow> (\<exists>es'. map_of es x = Some (Dir es'))"
proof -
  assume d: "distinct (map fst es)"
  have "x \<in> set (dirnames es) \<longleftrightarrow> (\<exists>m. (x, m) \<in> set es \<and> is_Dir m)"
    by (force simp: dirnames_def)
  also have "\<dots> \<longleftrightarrow> (\<exists>m. map_of es x = Some m \<and> is_Dir m)"
    using d by auto
  also have "\<dots> \<longleftrightarrow> (\<exists>es'. map_of es x = Some (Dir es'))"
    by (metis is_Dir.simps node.exhaust)
  finally show ?thesis .
qed

lemma distinct_filenames: "distinct (map fst es) \<Longrightarrow> distinct (filenames es)"
  by (simp add: filenames_def distinct_map_filter)

lemma distinct_dirnames: "distinct (map fst es) \<Longrightarrow> distinct (dirnames es)"
  by (simp add: dirnames_def distinct_map_filter)

lemma del_entries_append: "del_entries (xs @ ys) = del_entries xs @ del_entries ys"
  by (simp add: del_entries_def)

lemma del_entries_concat: "del_entries (concat xss) = concat (map del_entries xss)"
  by (induction xss) (simp_all add: del_entries_append, simp add: del_entries_def)

lemma set_walk_eq: "set (walk_topdown tp n) = set (walk_bottomup tp n)"
  by (induction tp n rule: walk_topdown.induct) auto

lemma set_del_entries: 
  "set (del_entries ts) = (\<Union>(root, dirs, files) \<in> set ts.
      (\<lambda>x. (True, root @ [x])) ` set files \<union> (\<lambda>x. (False, root @ [x])) ` set dirs)"
  by (auto simp: del_entries_def)

lemma in_walk_entries:
  "wf_fs n \<Longrightarrow>
   (k, q) \<in> set (del_entries (walk_bottomup tp n)) \<longleftrightarrow>
   (\<exists>rel m. rel \<noteq> [] \<and> q = tp @ rel \<and> lookup n rel = Some m \<and> k = (\<not> is_Dir m))"
proof (induction tp n arbitrary: k q rule: walk_bottomup.induct)
  case (1 tp c)
  then show ?case by (simp add: del_entries_def)
next
  case (2 tp es)
  from "2.prems" have d: "distinct (map fst es)" and w: "\<And>x m. (x, m) \<in> set es \<Longrightarrow> wf_fs m"
    by auto
  have IH: "(k, q) \<in> set (del_entries (walk_bottomup (tp @ [x]) m)) \<longleftrightarrow>
     (\<exists>rel m'. rel \<noteq> [] \<and> q = (tp @ [x]) @ rel \<and> lookup m rel = Some m' \<and> k = (\<not> is_Dir m'))"
    if "(x, m) \<in> set es" for x m k q
    using "2.IH"[OF that refl w[OF that]] .
  have here: "(k, q) \<in> set (del_entries [(tp, dirnames es, filenames es)]) \<longleftrightarrow>
      (\<exists>x m. q = tp @ [x] \<and> map_of es x = Some m \<and> k = (\<not> is_Dir m))"
  proof (cases k)
    case True
    then show ?thesis using in_filenames[OF d]
      by (auto simp: del_entries_def not_is_Dir)
  next
    case False
    then show ?thesis using in_dirnames[OF d]
      by (auto simp: del_entries_def is_Dir_iff)
  qed
  have below: "(k, q) \<in> set (del_entries (concat (map (\<lambda>(x, n). walk_bottomup (tp @ [x]) n) es))) \<longleftrightarrow>
      (\<exists>x m rel m'. map_of es x = Some m \<and> rel \<noteq> [] \<and> q = tp @ x # rel \<and> lookup m rel = Some m'
          \<and> k = (\<not> is_Dir m'))"
    (is "?L \<longleftrightarrow> ?R")
  proof
    assume ?L
    then obtain x m where xm: "(x, m) \<in> set es"
      and "(k, q) \<in> set (del_entries (walk_bottomup (tp @ [x]) m))"
      by (auto simp: del_entries_concat)
    with IH[OF xm] d show ?R by auto
  next
    assume ?R
    then obtain x m rel m' where xm: "map_of es x = Some m" and r: "rel \<noteq> []" "q = tp @ x # rel"
      "lookup m rel = Some m'" "k = (\<not> is_Dir m')" by blast
    from xm have i: "(x, m) \<in> set es" by (rule map_of_SomeD)
    have "(k, q) \<in> set (del_entries (walk_bottomup (tp @ [x]) m))"
      using IH[OF i] r by auto
    with i show ?L by (force simp: del_entries_concat)
  qed
  have "(k, q) \<in> set (del_entries (walk_bottomup tp (Dir es))) \<longleftrightarrow>
     (k, q) \<in> set (del_entries (concat (map (\<lambda>(x, n). walk_bottomup (tp @ [x]) n) es)))
     \<or> (k, q) \<in> set (del_entries [(tp, dirnames es, filenames es)])"
    by (simp add: del_entries_append)
  also have "\<dots> \<longleftrightarrow> (\<exists>rel m. rel \<noteq> [] \<and> q = tp @ rel \<and> lookup (Dir es) rel = Some m \<and> k = (\<not> is_Dir m))"
    (is "_ \<longleftrightarrow> ?R")
  proof
    assume "(k, q) \<in> set (del_entries (concat (map (\<lambda>(x, n). walk_bottomup (tp @ [x]) n) es)))
     \<or> (k, q) \<in> set (del_entries [(tp, dirnames es, filenames es)])"
    then show ?R
    proof
      assume "(k, q) \<in> set (del_entries (concat (map (\<lambda>(x, n). walk_bottomup (tp @ [x]) n) es)))"
      then obtain x m rel m' where "map_of es x = Some m" "rel \<noteq> []" "q = tp @ x # rel"
        "lookup m rel = Some m'" "k = (\<not> is_Dir m')" using below by blast
      then show ?R by (intro exI[of _ "x # rel"] exI[of _ m']) simp
    next
      assume "(k, q) \<in> set (del_entries [(tp, dirnames es, filenames es)])"
      then obtain x m where "q = tp @ [x]" "map_of es x = Some m" "k = (\<not> is_Dir m)"
        using here by blast
      then show ?R by (intro exI[of _ "[x]"] exI[of _ m]) simp
    qed
  next
    assume ?R
    then obtain rel m where r: "rel \<noteq> []" "q = tp @ rel" "lookup (Dir es) rel = Some m"
      "k = (\<not> is_Dir m)" by blast
    then obtain x rel' where rel: "rel = x # rel'" by (cases rel) auto
    from r(3) obtain m0 where m0: "map_of es x = Some m0" "lookup m0 rel' = Some m"
      by (auto simp: rel split: option.splits)
    show "(k, q) \<in> set (del_entries (concat (map (\<lambda>(x, n). walk_bottomup (tp @ [x]) n) es)))
     \<or> (k, q) \<in> set (del_entries [(tp, dirnames es, filenames es)])"
    proof (cases "rel' = []")
      case True
      then have "(k, q) \<in> set (del_entries [(tp, dirnames es, filenames es)])"
        using here m0 r by (auto simp: rel)
      then show ?thesis ..
    next
      case False
      then have "(k, q) \<in> set (del_entries (concat (map (\<lambda>(x, n). walk_bottomup (tp @ [x]) n) es)))"
        using below m0 r rel by blast
      then show ?thesis ..
    qed
  qed
  finally show ?case .
qed

section \<open>The order of the deletion pass\<close>

lemma walk_root_prefix: "t \<in> set (walk_bottomup tp n) \<Longrightarrow> prefix tp (fst t)"
proof (induction tp n arbitrary: t rule: walk_bottomup.induct)
  case (1 tp c)
  then show ?case by simp
next
  case (2 tp es)
  from "2.prems" consider "fst t = tp"
    | x m where "(x, m) \<in> set es" "t \<in> set (walk_bottomup (tp @ [x]) m)"
    by auto
  then show ?case
  proof cases
    case 1
    then show ?thesis by simp
  next
    case 2
    then have "prefix (tp @ [x]) (fst t)" using "2.IH" by blast
    then show ?thesis using append_prefixD by blast 
  qed
qed






section \<open>What a run may touch\<close>

lemma final_simps [simp]: "final (Inr st) = st" "final (Inl (e, st)) = st"
  by (simp_all add: final_def)

lemma run_steps_rel:
  assumes refl: "\<And>t. Rl t t"
    and trans: "\<And>t1 t2 t3. Rl t1 t2 \<Longrightarrow> Rl t2 t3 \<Longrightarrow> Rl t1 t3"
    and step: "\<And>x s. x \<in> set xs \<Longrightarrow> Rl (disk s) (disk (final (f x s)))"
  shows "Rl (disk st) (disk (final (run_steps f xs st)))"
  using step
proof (induction xs arbitrary: st)
  case Nil
  then show ?case by (simp add: refl)
next
  case (Cons x xs)
  show ?case
  proof (cases "f x st")
    case (Inl r)
    then show ?thesis using Cons.prems[of x st] by simp
  next
    case (Inr st')
    have "Rl (disk st) (disk st')" using Cons.prems[of x st] Inr by simp
    moreover have "Rl (disk st') (disk (final (run_steps f xs st')))"
      using Cons.prems by (intro Cons.IH) simp
    ultimately show ?thesis using Inr trans by simp
  qed
qed

lemma write_file_stat:
  assumes "write_file t p c = Inr t'"
  shows "stat t' = (if p = [] then stat t else (stat t)(p \<mapsto> KFile c))"
proof (cases "p = []")
  case True
  then show ?thesis using assms
    by (auto simp: write_file_def split: option.splits node.splits)
next
  case False
  then show ?thesis using write_file_Inr(1)[OF assms] by simp
qed

lemma append_file_stat:
  assumes "append_file t p c = Inr t'"
  shows "\<exists>c'. stat t' = (if p = [] then stat t else (stat t)(p \<mapsto> KFile c'))"
proof -
  from assms obtain c' where w: "write_file t p c' = Inr t'"
    by (auto simp: append_file_def split: option.splits node.splits)
  show ?thesis using write_file_stat[OF w] by blast
qed

lemma shutil_copy2_stat:
  assumes "shutil_copy2 t src dst = Inr t'"
  shows "\<exists>d c. (d = dst \<or> d = dst @ os_path_basename src) \<and>
           stat t' = (if d = [] then stat t else (stat t)(d \<mapsto> KFile c))"
proof -
  from assms obtain d c where d: "d = dst \<or> d = dst @ os_path_basename src"
    and w: "write_file t d c = Inr t'"
    by (auto simp: shutil_copy2_def Let_def split: if_splits sum.splits)
  show ?thesis using write_file_stat[OF w] d by blast
qed

text \<open>The frame of each step\<close>

lemma frame_refl: "frame a t t"
  by (simp add: frame_def)

lemma frame_trans: "frame a t1 t2 \<Longrightarrow> frame a t2 t3 \<Longrightarrow> frame a t1 t3"
  by (simp add: frame_def)

lemma frame_point:
  "footprint a p \<Longrightarrow> stat t' = (stat t)(p := v) \<Longrightarrow> frame a t t'"
  by (auto simp: frame_def)

lemma frame_write_log: "frame a (disk st) (disk (final (write_log a text st)))"
proof (cases "append_file (disk st) (log_file a) text")
  case (Inl e)
  then show ?thesis by (simp add: write_log_def frame_refl)
next
  case (Inr t')
  from append_file_stat[OF Inr] obtain c' where
    "stat t' = (if log_file a = [] then stat (disk st) else (stat (disk st))(log_file a \<mapsto> KFile c'))"
    by blast
  then have "frame a (disk st) t'" by (auto simp: frame_def footprint_def)
  then show ?thesis using Inr by (simp add: write_log_def)
qed

lemma footprint_below: "prefix (replica_folder a) p \<Longrightarrow> footprint a p"
  by (simp add: footprint_def)

lemma frame_del_step:
  assumes "prefix (replica_folder a) (snd e)"
  shows "frame a (disk st) (disk (final (del_step a e st)))"
proof -
  obtain k p where e: "e = (k, p)" by (cases e) auto
  have fp: "footprint a p" using assms e by (simp add: footprint_below)
  show ?thesis
  proof (cases "os_path_exists (disk st) (source_folder a @ os_path_relpath p (replica_folder a))")
    case True
    then show ?thesis by (simp add: del_step_def e frame_refl)
  next
    case False
    show ?thesis
    proof (cases "if k then os_remove (disk st) p else os_rmdir (disk st) p")
      case (Inl err)
      then show ?thesis using False by (simp add: del_step_def e frame_refl)
    next
      case (Inr t)
      then have "stat t = (stat (disk st))(p := None)"
        using os_remove_Inr(2)[of "disk st" p t] os_rmdir_Inr(2)[of "disk st" p t]
        by (auto split: if_splits)
      then have 1: "frame a (disk st) t" using fp frame_point by blast
      let ?st1 = "if k then st\<lparr>disk := t, file_removed_counter := file_removed_counter st + 1\<rparr>
                  else st\<lparr>disk := t\<rparr>"
      have d: "disk ?st1 = t" by simp
      have 2: "frame a t (disk (final (write_log a (log_line a p '' removed from replica folder'') ?st1)))"
        using frame_write_log[of a ?st1] unfolding d .
      have "del_step a e st = write_log a (log_line a p '' removed from replica folder'') ?st1"
        using False Inr by (simp add: del_step_def e)
      then show ?thesis using frame_trans[OF 1 2] by simp
    qed
  qed
qed

lemma frame_makedirs:
  assumes "os_makedirs t p = Inr t'" "prefix (replica_folder a) p"
  shows "frame a t t'"
proof -
  have "footprint a q" if "prefix q p" for q
    using that assms(2) prefix_same_cases[of q p "replica_folder a"] by (auto simp: footprint_def)
  then show ?thesis using os_makedirs_Inr(1)[OF assms(1)] by (auto simp: frame_def)
qed

lemma frame_copy_file: "frame a (disk st) (disk (final (copy_file a f st)))"
proof -
  let ?rf = "replica_folder a @ os_path_relpath f (source_folder a)"
  let ?rd = "os_path_dirname ?rf"
  let ?mk = "if \<not> os_path_exists (disk st) ?rd then os_makedirs (disk st) ?rd else Inr (disk st)"
  show ?thesis
  proof (cases ?mk)
    case (Inl e)
    then show ?thesis by (simp add: copy_file_def Let_def frame_refl)
  next
    case (Inr t1)
    have rd: "prefix (replica_folder a) ?rd \<or> ?rd = butlast (replica_folder a)"
      by (cases "os_path_relpath f (source_folder a)" rule: rev_cases)
         (simp_all add: os_path_dirname_def butlast_append)
    have 1: "frame a (disk st) t1"
    proof (cases "os_path_exists (disk st) ?rd")
      case True
      then show ?thesis using Inr by (simp add: frame_refl)
    next
      case False
      then have mk: "os_makedirs (disk st) ?rd = Inr t1" using Inr by simp
      have "footprint a q" if "prefix q ?rd" for q
        using that rd prefix_same_cases[of q ?rd "replica_folder a"]
          prefix_order.trans[of q "butlast (replica_folder a)" "replica_folder a"]
        by (auto simp: footprint_def prefixeq_butlast)
      then show ?thesis using os_makedirs_Inr(1)[OF mk] by (auto simp: frame_def)
    qed
    show ?thesis
    proof (cases "identical_check t1 f ?rf")
      case (Inl e)
      then show ?thesis using Inr 1 by (simp add: copy_file_def Let_def)
    next
      case chk: (Inr b)
      show ?thesis
      proof (cases b)
        case True
        let ?st1 = "st\<lparr>disk := t1, file_identical_counter := file_identical_counter st + 1\<rparr>"
        have "frame a t1 (disk (final (write_log a
               (log_line a f '' already exists in replica folder and is identical'') ?st1)))"
          using frame_write_log[of a ?st1] by simp
        then show ?thesis using Inr chk True frame_trans[OF 1]
          by (simp add: copy_file_def Let_def)
      next
        case False
        show ?thesis
        proof (cases "shutil_copy2 t1 f ?rf")
          case (Inl e)
          then show ?thesis using Inr chk False 1 by (simp add: copy_file_def Let_def)
        next
          case cp: (Inr t2)
          from shutil_copy2_stat[OF cp] obtain d c where
            d: "d = ?rf \<or> d = ?rf @ os_path_basename f"
            and s: "stat t2 = (if d = [] then stat t1 else (stat t1)(d \<mapsto> KFile c))" by blast
          from d have "footprint a d" by (auto simp: footprint_def)
          with s have 2: "frame a t1 t2" by (auto simp: frame_def)
          let ?st2 = "st\<lparr>disk := t2, file_copied_counter := file_copied_counter st + 1\<rparr>"
          have 3: "frame a t2 (disk (final (write_log a
               (log_line a f '' copied to replica folder'') ?st2)))"
            using frame_write_log[of a ?st2] by simp
          show ?thesis using Inr chk False cp frame_trans[OF 1 frame_trans[OF 2 3]]
            by (simp add: copy_file_def Let_def)
        qed
      qed
    qed
  qed
qed

lemma walk_entries_below:
  "e \<in> set (del_entries (walk_bottomup tp n)) \<Longrightarrow> prefix tp (snd e)"
proof -
  assume "e \<in> set (del_entries (walk_bottomup tp n))"
  then obtain root dirs files x where "(root, dirs, files) \<in> set (walk_bottomup tp n)"
    and "snd e = root @ [x]"
    by (auto simp: set_del_entries)
  then show ?thesis using walk_root_prefix[of "(root, dirs, files)" tp n] by auto
qed

lemma os_walk_entries_below:
  "e \<in> set (del_entries (os_walk t tp False)) \<Longrightarrow> prefix tp (snd e)"
proof (cases "lookup t tp")
  case None
  assume "e \<in> set (del_entries (os_walk t tp False))"
  then show ?thesis using None by (simp add: os_walk_def del_entries_def)
next
  case (Some n)
  assume "e \<in> set (del_entries (os_walk t tp False))"
  then show ?thesis using Some walk_entries_below by (simp add: os_walk_def)
qed

lemma sync_folders_rel:
  assumes refl: "\<And>t. Rl t t"
    and trans: "\<And>t1 t2 t3. Rl t1 t2 \<Longrightarrow> Rl t2 t3 \<Longrightarrow> Rl t1 t3"
    and del: "\<And>e s. e \<in> set (del_entries (os_walk (disk st0) (replica_folder a) False)) \<Longrightarrow>
                Rl (disk s) (disk (final (del_step a e s)))"
    and copy: "\<And>f s. f \<in> set (scan (disk st0) (source_folder a)) \<Longrightarrow>
                Rl (disk s) (disk (final (copy_file a f s)))"
    and log: "\<And>msg s. Rl (disk s) (disk (final (write_log a msg s)))"
  shows "Rl (disk st0) (disk (final (sync_folders a st0)))"
proof -
  let ?st = "st0\<lparr>file_copied_counter := 0, file_removed_counter := 0, file_identical_counter := 0\<rparr>"
  let ?d = "run_steps (del_step a) (del_entries (os_walk (disk st0) (replica_folder a) False)) ?st"
  have 1: "Rl (disk st0) (disk (final ?d))"
    using run_steps_rel[of Rl _ "del_step a" ?st, OF refl trans del] by simp
  show ?thesis
  proof (cases ?d)
    case (Inl r)
    then show ?thesis using 1
      by (simp add: sync_folders_def Let_def deletion_pass_steps)
  next
    case d: (Inr st1)
    let ?c = "run_steps (copy_file a) (scan (disk st0) (source_folder a)) st1"
    have 2: "Rl (disk st1) (disk (final ?c))"
      using run_steps_rel[of Rl _ "copy_file a" st1, OF refl trans copy] by simp
    show ?thesis
    proof (cases ?c)
      case (Inl r)
      then show ?thesis using 1 2 d trans
        by (simp add: sync_folders_def Let_def deletion_pass_steps copy_pass_steps)
    next
      case c: (Inr st2)
      have 3: "Rl (disk st2) (disk (final (write_log a (summary st2) st2)))" by (rule log)
      have 13: "Rl (disk st0) (disk (final (write_log a (summary st2) st2)))"
        using 1 2 3 d c trans by (metis final_simps(1))
      show ?thesis
      proof (cases "write_log a (summary st2) st2")
        case (Inl r)
        then show ?thesis using 13 d c
          by (simp add: sync_folders_def Let_def deletion_pass_steps copy_pass_steps)
      next
        case (Inr st3)
        then show ?thesis using 13 d c
          by (simp add: sync_folders_def Let_def deletion_pass_steps copy_pass_steps)
      qed
    qed
  qed
qed

lemma sync_folders_frame: "frame a (disk st0) (disk (final (sync_folders a st0)))"
proof (rule sync_folders_rel)
  show "frame a t t" for t by (rule frame_refl)
  show "frame a t1 t2 \<Longrightarrow> frame a t2 t3 \<Longrightarrow> frame a t1 t3" for t1 t2 t3 by (rule frame_trans)
  show "frame a (disk s) (disk (final (del_step a e s)))"
    if "e \<in> set (del_entries (os_walk (disk st0) (replica_folder a) False))" for e s
    using frame_del_step os_walk_entries_below[OF that] by blast
  show "frame a (disk s) (disk (final (copy_file a f s)))" for f s by (rule frame_copy_file)
  show "frame a (disk s) (disk (final (write_log a msg s)))" for msg s by (rule frame_write_log)
qed

section \<open>The source folder is left as it is\<close>

lemma nat_str_digit: "n < 10 \<Longrightarrow> nat_str n = [''0123456789'' ! n]"
  by (simp add: nat_str.simps)

lemmas run_defs =
  sync_folders_def scan_def os_walk_def del_entries_def deletion_pass_steps copy_pass_steps
  del_step_def copy_file_def identical_check_def get_md5_def read_file_def read_chunks_eq
  write_log_def log_line_def path_str_def summary_def nat_str_digit
  os_path_exists_def os_path_isdir_def os_path_dirname_def os_path_basename_def
  os_path_relpath_def os_remove_def os_rmdir_def os_mkdir_def os_makedirs_def
  write_file_def append_file_def shutil_copy2_def dirnames_def filenames_def Let_def
  stat_def

text \<open>
  C8, as amended. When neither of the source folder and the replica folder lies
  under the other and the log file does not lie under the source folder, a run leaves
  every path under the source folder as it was, whether the run ends with an exception
  or not.
\<close>

theorem sync_folders_source_unchanged:
  assumes "source_folder a \<parallel> replica_folder a"
    and "\<not> prefix (source_folder a) (log_file a)"
  shows "stat (disk (final (sync_folders a st))) (source_folder a @ rel) =
         stat (disk st) (source_folder a @ rel)"
proof -
  have s: "prefix (source_folder a) (source_folder a @ rel)" by simp
  have 1: "\<not> prefix (replica_folder a) (source_folder a @ rel)"
    using assms(1) prefix_same_cases[OF s] by (auto simp: parallel_def)
  have 2: "\<not> prefix (source_folder a @ rel) (replica_folder a)"
    using assms(1) append_prefixD by (auto simp: parallel_def)
  have 3: "source_folder a @ rel \<noteq> log_file a"
    using assms(2) by (metis prefixI)
  have "\<not> footprint a (source_folder a @ rel)"
    using 1 2 3 by (simp add: footprint_def)
  then show ?thesis using sync_folders_frame[of a st] by (simp add: frame_def)
qed

theorem sync_folders_source_unchanged_witness:
  "[''s''] \<parallel> [''r''] \<and> \<not> prefix [''s''] [''log''] \<and>
   stat (disk (final (sync_folders
       \<lparr>source_folder = [''s''], replica_folder = [''r''], log_file = [''log''],
         backup_interval = 60, timestamp = ''T''\<rparr>
       \<lparr>disk = Dir [(''s'', Dir [(''a'', File ''hi'')]), (''r'', Dir [(''b'', File ''x'')])],
         file_copied_counter = 0, file_removed_counter = 0, file_identical_counter = 0,
         queue = []\<rparr>))) [''s'', ''a'']
     = Some (KFile ''hi'')"
proof -
  let ?a = "\<lparr>source_folder = [''s''], replica_folder = [''r''], log_file = [''log''],
         backup_interval = 60, timestamp = ''T''\<rparr>"
  let ?st = "\<lparr>disk = Dir [(''s'', Dir [(''a'', File ''hi'')]), (''r'', Dir [(''b'', File ''x'')])],
         file_copied_counter = 0, file_removed_counter = 0, file_identical_counter = 0,
         queue = []\<rparr>"
  have 1: "source_folder ?a \<parallel> replica_folder ?a" by (simp add: parallel_def)
  have 2: "\<not> prefix (source_folder ?a) (log_file ?a)" by simp
  show ?thesis
    using sync_folders_source_unchanged[OF 1 2, of ?st "[''a'']"] 1
    by (simp add: stat_def)
qed

text \<open>
  C8 as stated fails when the log file lies under the source folder: the run writes its
  log there.
\<close>

theorem source_modified_by_log_counterexample:
  "\<not> isl (sync_folders
       \<lparr>source_folder = [''s''], replica_folder = [''r''], log_file = [''s'', ''log''],
         backup_interval = 60, timestamp = ''T''\<rparr>
       \<lparr>disk = Dir [(''s'', Dir [(''a'', File ''hi'')]), (''r'', Dir [])],
         file_copied_counter = 0, file_removed_counter = 0, file_identical_counter = 0,
         queue = []\<rparr>)
   \<and> stat (Dir [(''s'', Dir [(''a'', File ''hi'')]), (''r'', Dir [])]) [''s'', ''log''] = None
   \<and> stat (disk (final (sync_folders
       \<lparr>source_folder = [''s''], replica_folder = [''r''], log_file = [''s'', ''log''],
         backup_interval = 60, timestamp = ''T''\<rparr>
       \<lparr>disk = Dir [(''s'', Dir [(''a'', File ''hi'')]), (''r'', Dir [])],
         file_copied_counter = 0, file_removed_counter = 0, file_identical_counter = 0,
         queue = []\<rparr>))) [''s'', ''log''] =
      Some (KFile (''T - /s/a copied to replica folder'' @ [CHR 0x0A] @
                   ''Files copied - 1'' @ [CHR 0x0A] @
                   ''Files removed - 0'' @ [CHR 0x0A] @
                   ''Files unaltered - 0'' @ [CHR 0x0A]))"
  by (simp add: run_defs)

section \<open>Directories made in the replica\<close>

lemma in_scan:
  assumes "wf_fs t"
  shows "f \<in> set (scan t src) \<longleftrightarrow>
         (\<exists>r c. r \<noteq> [] \<and> f = src @ r \<and> lookup t (src @ r) = Some (File c))"
proof (cases "lookup t src")
  case None
  then show ?thesis by (auto simp: scan_def os_walk_def lookup_append)
next
  case (Some n)
  have w: "wf_fs n" using assms Some by (rule wf_lookup)
  have "f \<in> set (scan t src) \<longleftrightarrow> (True, f) \<in> set (del_entries (walk_topdown src n))"
    by (force simp: scan_def os_walk_def Some set_del_entries)
  also have "\<dots> \<longleftrightarrow> (True, f) \<in> set (del_entries (walk_bottomup src n))"
    by (simp add: set_del_entries set_walk_eq)
  also have "\<dots> \<longleftrightarrow> (\<exists>r m. r \<noteq> [] \<and> f = src @ r \<and> lookup n r = Some m \<and> \<not> is_Dir m)"
    using in_walk_entries[OF w, of True f src] by simp
  also have "\<dots> \<longleftrightarrow> (\<exists>r c. r \<noteq> [] \<and> f = src @ r \<and> lookup t (src @ r) = Some (File c))"
    by (auto simp: lookup_append Some not_is_Dir)
  finally show ?thesis .
qed

lemma dirs_from_refl: "dirs_from a fs t t"
  by (simp add: dirs_from_def)

lemma dirs_from_trans: "dirs_from a fs t1 t2 \<Longrightarrow> dirs_from a fs t2 t3 \<Longrightarrow> dirs_from a fs t1 t3"
  by (auto simp: dirs_from_def)

lemma dirs_from_point:
  "stat t' = (if b then stat t else (stat t)(p := v)) \<Longrightarrow> v \<noteq> Some KDir \<Longrightarrow> dirs_from a fs t t'"
  by (auto simp: dirs_from_def split: if_splits)

lemma dirs_from_write_log: "dirs_from a fs (disk st) (disk (final (write_log a msg st)))"
proof (cases "append_file (disk st) (log_file a) msg")
  case (Inl e)
  then show ?thesis by (simp add: write_log_def dirs_from_refl)
next
  case (Inr t')
  from append_file_stat[OF Inr] obtain c' where
    "stat t' = (if log_file a = [] then stat (disk st) else (stat (disk st))(log_file a \<mapsto> KFile c'))"
    by blast
  then have "dirs_from a fs (disk st) t'" by (rule dirs_from_point) simp
  then show ?thesis using Inr by (simp add: write_log_def)
qed

lemma dirs_from_del_step: "dirs_from a fs (disk st) (disk (final (del_step a e st)))"
proof -
  obtain k p where e: "e = (k, p)" by (cases e) auto
  show ?thesis
  proof (cases "os_path_exists (disk st) (source_folder a @ os_path_relpath p (replica_folder a))")
    case True
    then show ?thesis by (simp add: del_step_def e dirs_from_refl)
  next
    case False
    show ?thesis
    proof (cases "if k then os_remove (disk st) p else os_rmdir (disk st) p")
      case (Inl err)
      then show ?thesis using False by (simp add: del_step_def e dirs_from_refl)
    next
      case (Inr t)
      then have "stat t = (if False then stat (disk st) else (stat (disk st))(p := None))"
        using os_remove_Inr(2)[of "disk st" p t] os_rmdir_Inr(2)[of "disk st" p t]
        by (auto split: if_splits)
      then have 1: "dirs_from a fs (disk st) t" by (rule dirs_from_point) simp
      let ?st1 = "if k then st\<lparr>disk := t, file_removed_counter := file_removed_counter st + 1\<rparr>
                  else st\<lparr>disk := t\<rparr>"
      have d: "disk ?st1 = t" by simp
      have 2: "dirs_from a fs t
         (disk (final (write_log a (log_line a p '' removed from replica folder'') ?st1)))"
        using dirs_from_write_log[of a fs ?st1] unfolding d .
      have "del_step a e st = write_log a (log_line a p '' removed from replica folder'') ?st1"
        using False Inr by (simp add: del_step_def e)
      then show ?thesis using dirs_from_trans[OF 1 2] by simp
    qed
  qed
qed

lemma dirs_from_copy_file:
  assumes "f \<in> set fs"
  shows "dirs_from a fs (disk st) (disk (final (copy_file a f st)))"
proof -
  let ?rf = "replica_folder a @ os_path_relpath f (source_folder a)"
  let ?rd = "os_path_dirname ?rf"
  let ?mk = "if \<not> os_path_exists (disk st) ?rd then os_makedirs (disk st) ?rd else Inr (disk st)"
  show ?thesis
  proof (cases ?mk)
    case (Inl e)
    then show ?thesis by (simp add: copy_file_def Let_def dirs_from_refl)
  next
    case (Inr t1)
    have 1: "dirs_from a fs (disk st) t1"
    proof (cases "os_path_exists (disk st) ?rd")
      case True
      then show ?thesis using Inr by (simp add: dirs_from_refl)
    next
      case False
      then have mk: "os_makedirs (disk st) ?rd = Inr t1" using Inr by simp
      have "made_for a fs q" if "prefix q ?rd" for q
        using that assms by (auto simp: made_for_def)
      then show ?thesis using os_makedirs_Inr(1)[OF mk] by (auto simp: dirs_from_def)
    qed
    show ?thesis
    proof (cases "identical_check t1 f ?rf")
      case (Inl e)
      then show ?thesis using Inr 1 by (simp add: copy_file_def Let_def)
    next
      case chk: (Inr b)
      show ?thesis
      proof (cases b)
        case True
        let ?st1 = "st\<lparr>disk := t1, file_identical_counter := file_identical_counter st + 1\<rparr>"
        have "dirs_from a fs t1 (disk (final (write_log a
               (log_line a f '' already exists in replica folder and is identical'') ?st1)))"
          using dirs_from_write_log[of a fs ?st1] by simp
        then show ?thesis using Inr chk True dirs_from_trans[OF 1]
          by (simp add: copy_file_def Let_def)
      next
        case False
        show ?thesis
        proof (cases "shutil_copy2 t1 f ?rf")
          case (Inl e)
          then show ?thesis using Inr chk False 1 by (simp add: copy_file_def Let_def)
        next
          case cp: (Inr t2)
          from shutil_copy2_stat[OF cp] obtain d c where
            s: "stat t2 = (if d = [] then stat t1 else (stat t1)(d \<mapsto> KFile c))" by blast
          then have 2: "dirs_from a fs t1 t2" by (rule dirs_from_point) simp
          let ?st2 = "st\<lparr>disk := t2, file_copied_counter := file_copied_counter st + 1\<rparr>"
          have 3: "dirs_from a fs t2 (disk (final (write_log a
               (log_line a f '' copied to replica folder'') ?st2)))"
            using dirs_from_write_log[of a fs ?st2] by simp
          show ?thesis using Inr chk False cp dirs_from_trans[OF 1 dirs_from_trans[OF 2 3]]
            by (simp add: copy_file_def Let_def)
        qed
      qed
    qed
  qed
qed

lemma sync_folders_dirs_from:
  "dirs_from a (scan (disk st0) (source_folder a)) (disk st0) (disk (final (sync_folders a st0)))"
proof (rule sync_folders_rel[where Rl = "dirs_from a (scan (disk st0) (source_folder a))"])
  let ?fs = "scan (disk st0) (source_folder a)"
  show "dirs_from a ?fs t t" for t by (rule dirs_from_refl)
  show "dirs_from a ?fs t1 t2 \<Longrightarrow> dirs_from a ?fs t2 t3 \<Longrightarrow> dirs_from a ?fs t1 t3" for t1 t2 t3
    by (rule dirs_from_trans)
  show "dirs_from a ?fs (disk s) (disk (final (del_step a e s)))" for e s
    by (rule dirs_from_del_step)
  show "dirs_from a ?fs (disk s) (disk (final (copy_file a f s)))" if "f \<in> set ?fs" for f s
    using that by (rule dirs_from_copy_file)
  show "dirs_from a ?fs (disk s) (disk (final (write_log a msg s)))" for msg s
    by (rule dirs_from_write_log)
qed

text \<open>
  C10. A directory that a run creates at a path under the replica folder has a regular
  file beneath the same path under the source folder: directories are only made for
  the replica files of the scanned source files. So a path that is no directory in the
  replica and has no regular file beneath it in the source is no directory in the replica
  after the run, however the run ends.
\<close>

theorem replica_directories_only_for_source_files:
  assumes "wf_fs (disk st)"
    and "stat (disk (final (sync_folders a st))) (replica_folder a @ rel) = Some KDir"
    and "stat (disk st) (replica_folder a @ rel) \<noteq> Some KDir"
  shows "\<exists>rest c. rest \<noteq> [] \<and>
           stat (disk st) (source_folder a @ rel @ rest) = Some (KFile c)"
proof -
  from sync_folders_dirs_from[of a st] assms(2,3)
  have "made_for a (scan (disk st) (source_folder a)) (replica_folder a @ rel)"
    by (auto simp: dirs_from_def)
  then obtain f where f: "f \<in> set (scan (disk st) (source_folder a))"
    and p: "prefix (replica_folder a @ rel)
              (os_path_dirname (replica_folder a @ os_path_relpath f (source_folder a)))"
    by (auto simp: made_for_def)
  from f obtain r c where r: "r \<noteq> []" "f = source_folder a @ r"
    "lookup (disk st) (source_folder a @ r) = Some (File c)"
    using in_scan[OF assms(1)] by blast
  from r(1) have b: "r = butlast r @ [last r]" by simp
  have "os_path_dirname (replica_folder a @ os_path_relpath f (source_folder a)) =
        replica_folder a @ butlast r"
    using r(1) by (simp add: os_path_dirname_def os_path_relpath_def r(2) butlast_append)
  with p have "prefix rel (butlast r)" by simp
  then obtain u where u: "butlast r = rel @ u" by (auto simp: prefix_def)
  have "r = rel @ (u @ [last r])" using b u by simp
  then have "stat (disk st) (source_folder a @ rel @ (u @ [last r])) = Some (KFile c)"
    using r(3) by (simp add: stat_KFile)
  then show ?thesis by blast
qed

theorem replica_directories_only_for_source_files_witness:
  "wf_fs (Dir [(''s'', Dir [(''d'', Dir [(''a'', File ''hi'')]), (''e'', Dir [])]), (''r'', Dir [])])
   \<and> stat (disk (final (sync_folders
       \<lparr>source_folder = [''s''], replica_folder = [''r''], log_file = [''log''],
         backup_interval = 60, timestamp = ''T''\<rparr>
       \<lparr>disk = Dir [(''s'', Dir [(''d'', Dir [(''a'', File ''hi'')]), (''e'', Dir [])]),
                    (''r'', Dir [])],
         file_copied_counter = 0, file_removed_counter = 0, file_identical_counter = 0,
         queue = []\<rparr>))) [''r'', ''d''] = Some KDir
   \<and> stat (Dir [(''s'', Dir [(''d'', Dir [(''a'', File ''hi'')]), (''e'', Dir [])]), (''r'', Dir [])])
        [''r'', ''d''] = None
   \<and> (\<exists>rest c. rest \<noteq> [] \<and>
        stat (Dir [(''s'', Dir [(''d'', Dir [(''a'', File ''hi'')]), (''e'', Dir [])]), (''r'', Dir [])])
          ([''s''] @ [''d''] @ rest) = Some (KFile c))
   \<and> stat (disk (final (sync_folders
       \<lparr>source_folder = [''s''], replica_folder = [''r''], log_file = [''log''],
         backup_interval = 60, timestamp = ''T''\<rparr>
       \<lparr>disk = Dir [(''s'', Dir [(''d'', Dir [(''a'', File ''hi'')]), (''e'', Dir [])]),
                    (''r'', Dir [])],
         file_copied_counter = 0, file_removed_counter = 0, file_identical_counter = 0,
         queue = []\<rparr>))) [''r'', ''e''] = None"
proof -
  let ?t = "Dir [(''s'', Dir [(''d'', Dir [(''a'', File ''hi'')]), (''e'', Dir [])]), (''r'', Dir [])]"
  let ?a = "\<lparr>source_folder = [''s''], replica_folder = [''r''], log_file = [''log''],
         backup_interval = 60, timestamp = ''T''\<rparr>"
  let ?st = "\<lparr>disk = ?t, file_copied_counter = 0, file_removed_counter = 0,
         file_identical_counter = 0, queue = []\<rparr>"
  have 1: "wf_fs (disk ?st)" by simp
  have 2: "stat (disk (final (sync_folders ?a ?st))) (replica_folder ?a @ [''d'']) = Some KDir"
    by (simp add: run_defs)
  have 3: "stat (disk ?st) (replica_folder ?a @ [''d'']) \<noteq> Some KDir"
    by (simp add: stat_def)
  have 4: "stat (disk (final (sync_folders ?a ?st))) [''r'', ''e''] = None"
    by (simp add: run_defs)
  show ?thesis
    using replica_directories_only_for_source_files[OF 1 2 3] 1 2 3 4
    by (simp add: stat_def)
qed

section \<open>One round of the copy loop\<close>

lemma write_log_Inr:
  assumes "write_log a msg st = Inr st'"
  shows "\<exists>c. stat (disk st') =
           (if log_file a = [] then stat (disk st) else (stat (disk st))(log_file a \<mapsto> KFile c))"
    and "file_copied_counter st' = file_copied_counter st"
    and "file_removed_counter st' = file_removed_counter st"
    and "file_identical_counter st' = file_identical_counter st"
    and "queue st' = queue st"
    and "wf_fs (disk st) \<Longrightarrow> wf_fs (disk st')"
    and "log_file a \<noteq> [] \<Longrightarrow> stat (disk st) (log_file a) \<noteq> Some KDir"
proof -
  from assms obtain t' where t: "append_file (disk st) (log_file a) msg = Inr t'"
    and st': "st' = st\<lparr>disk := t'\<rparr>"
    by (auto simp: write_log_def split: sum.splits)
  show "\<exists>c. stat (disk st') =
           (if log_file a = [] then stat (disk st) else (stat (disk st))(log_file a \<mapsto> KFile c))"
    using append_file_stat[OF t] by (simp add: st')
  show "file_copied_counter st' = file_copied_counter st"
    "file_removed_counter st' = file_removed_counter st"
    "file_identical_counter st' = file_identical_counter st"
    "queue st' = queue st"
    by (simp_all add: st')
  show "wf_fs (disk st) \<Longrightarrow> wf_fs (disk st')"
  proof (cases "log_file a = []")
    case True
    assume "wf_fs (disk st)"
    moreover have "t' = disk st" using t True
      by (auto simp: append_file_def write_file_def split: option.splits node.splits)
    ultimately show ?thesis by (simp add: st')
  next
    case False
    assume "wf_fs (disk st)"
    then show ?thesis using append_file_Inr(2)[OF t False] by (simp add: st')
  qed
  show "log_file a \<noteq> [] \<Longrightarrow> stat (disk st) (log_file a) \<noteq> Some KDir"
  proof -
    assume n: "log_file a \<noteq> []"
    from t obtain c' where "write_file (disk st) (log_file a) c' = Inr t'"
      by (auto simp: append_file_def split: option.splits node.splits)
    then show ?thesis using write_file_Inr(3) n by blast
  qed
qed

lemma identical_check_Inr:
  "identical_check t f rf = Inr b \<Longrightarrow>
   (if b then \<exists>c c'. stat t f = Some (KFile c) \<and> stat t rf = Some (KFile c') \<and>
                     hexdigest (md5 c') = hexdigest (md5 c)
    else stat t rf = None \<or>
         (\<exists>c c'. stat t f = Some (KFile c) \<and> stat t rf = Some (KFile c') \<and>
                  hexdigest (md5 c') \<noteq> hexdigest (md5 c)))"
proof -
  assume a: "identical_check t f rf = Inr b"
  show ?thesis
  proof (cases "os_path_exists t rf")
    case False
    then show ?thesis using a by (auto simp: identical_check_def os_path_exists_def stat_None)
  next
    case True
    with a obtain h1 h2 where h: "get_md5 t f = Inr h1" "get_md5 t rf = Inr h2" "b = (h1 = h2)"
      by (auto simp: identical_check_def split: sum.splits)
    then show ?thesis by (auto simp: get_md5_Inr)
  qed
qed

text \<open>What one round of the copy loop does when it raises nothing.\<close>

lemma copy_file_Inr:
  assumes ok: "copy_file a f st = Inr st'"
    and r: "os_path_relpath f (source_folder a) \<noteq> []"
    and rf_def: "rf = replica_folder a @ os_path_relpath f (source_folder a)"
  shows "\<exists>c t1 t2 cl.
     stat (disk st) f = Some (KFile c) \<and>
     stat t1 = (\<lambda>q. if prefix q (butlast rf) \<and> stat (disk st) q = None then Some KDir
                     else stat (disk st) q) \<and>
     stat t1 (butlast rf) = Some KDir \<and>
     ((\<exists>c'. stat t1 rf = Some (KFile c') \<and> hexdigest (md5 c') = hexdigest (md5 c)) \<and>
        t2 = t1 \<and>
        file_identical_counter st' = file_identical_counter st + 1 \<and>
        file_copied_counter st' = file_copied_counter st
      \<or>
      (stat t1 rf = None \<or>
         (\<exists>c'. stat t1 rf = Some (KFile c') \<and> hexdigest (md5 c') \<noteq> hexdigest (md5 c))) \<and>
        stat t2 = (stat t1)(rf \<mapsto> KFile c) \<and>
        file_identical_counter st' = file_identical_counter st \<and>
        file_copied_counter st' = file_copied_counter st + 1) \<and>
     stat (disk st') = (if log_file a = [] then stat t2 else (stat t2)(log_file a \<mapsto> KFile cl)) \<and>
     (log_file a \<noteq> [] \<longrightarrow> stat t2 (log_file a) \<noteq> Some KDir) \<and>
     file_removed_counter st' = file_removed_counter st \<and>
     queue st' = queue st \<and>
     (wf_fs (disk st) \<longrightarrow> wf_fs (disk st'))"
proof -
  let ?rd = "os_path_dirname rf"
  have rd: "?rd = butlast rf" by (simp add: os_path_dirname_def)
  have rf: "rf \<noteq> []" using r by (simp add: rf_def)
  let ?mk = "if \<not> os_path_exists (disk st) ?rd then os_makedirs (disk st) ?rd else Inr (disk st)"
  have cf: "copy_file a f st =
     (case ?mk of
        Inl e \<Rightarrow> Inl (e, st)
      | Inr fs1 \<Rightarrow>
         (case identical_check fs1 f rf of
            Inl e \<Rightarrow> Inl (e, st\<lparr>disk := fs1\<rparr>)
          | Inr True \<Rightarrow>
              write_log a (log_line a f '' already exists in replica folder and is identical'')
                (st\<lparr>disk := fs1, file_identical_counter := file_identical_counter st + 1\<rparr>)
          | Inr False \<Rightarrow>
             (case shutil_copy2 fs1 f rf of
                Inl e \<Rightarrow> Inl (e, st\<lparr>disk := fs1\<rparr>)
              | Inr fs2 \<Rightarrow>
                  write_log a (log_line a f '' copied to replica folder'')
                    (st\<lparr>disk := fs2, file_copied_counter := file_copied_counter st + 1\<rparr>))))"
    unfolding copy_file_def Let_def rf_def by (rule refl)
  from ok obtain t1 where mk: "?mk = Inr t1"
    unfolding cf by (cases ?mk) auto
  have s1: "stat t1 = (\<lambda>q. if prefix q (butlast rf) \<and> stat (disk st) q = None then Some KDir
                     else stat (disk st) q)"
   and w1: "wf_fs (disk st) \<longrightarrow> wf_fs t1"
  proof -
    show "stat t1 = (\<lambda>q. if prefix q (butlast rf) \<and> stat (disk st) q = None then Some KDir
                     else stat (disk st) q)"
    proof (cases "os_path_exists (disk st) ?rd")
      case True
      then have "stat (disk st) q \<noteq> None" if "prefix q (butlast rf)" for q
        using that lookup_prefix_exists[of "disk st" "butlast rf" q]
        by (simp add: os_path_exists_def stat_None rd)
      then show ?thesis using True mk by auto
    next
      case False
      then show ?thesis using mk os_makedirs_Inr(1)[of "disk st" ?rd t1] by (simp add: rd)
    qed
    show "wf_fs (disk st) \<longrightarrow> wf_fs t1"
      using mk os_makedirs_Inr(2)[of "disk st" ?rd t1] by (auto split: if_splits)
  qed
  from ok obtain b where chk: "identical_check t1 f rf = Inr b"
    unfolding cf mk by (cases "identical_check t1 f rf") auto
  note ic = identical_check_Inr[OF chk]
  have keep: "stat (disk st) f = Some (KFile c)" if "stat t1 f = Some (KFile c)" for c
    using that s1 by (auto split: if_splits)
  show ?thesis
  proof (cases b)
    case True
    from ic True obtain c c' where c: "stat t1 f = Some (KFile c)" "stat t1 rf = Some (KFile c')"
      "hexdigest (md5 c') = hexdigest (md5 c)" by auto
    let ?st1 = "st\<lparr>disk := t1, file_identical_counter := file_identical_counter st + 1\<rparr>"
    have wl: "write_log a (log_line a f '' already exists in replica folder and is identical'') ?st1
          = Inr st'"
      using ok True unfolding cf mk by (simp add: chk)
    note l = write_log_Inr[OF wl]
    from l(1) obtain cl where cl: "stat (disk st') =
        (if log_file a = [] then stat t1 else (stat t1)(log_file a \<mapsto> KFile cl))"
      by (auto cong del: if_weak_cong)
    have par: "stat t1 (butlast rf) = Some KDir"
      using lookup_parent[of t1 rf "File c'"] c(2) rf by (simp add: stat_KFile stat_KDir)
    show ?thesis
      apply (rule exI[of _ c], rule exI[of _ t1], rule exI[of _ t1], rule exI[of _ cl])
      using keep[OF c(1)] s1 par c(2,3) cl l(2-7) w1 by simp
  next
    case False
    from ok False obtain t2 where cp: "shutil_copy2 t1 f rf = Inr t2"
      unfolding cf mk by (cases "shutil_copy2 t1 f rf") (auto simp: chk)
    from ic False have nd: "stat t1 rf \<noteq> Some KDir" by auto
    from shutil_copy2_Inr[OF cp nd rf] obtain c where c: "stat t1 f = Some (KFile c)"
      and s2: "stat t2 = (stat t1)(rf \<mapsto> KFile c)" and w2: "wf_fs t1 \<Longrightarrow> wf_fs t2"
      by auto
    have par: "stat t1 (butlast rf) = Some KDir"
    proof -
      from cp nd obtain c0 where "write_file t1 rf c0 = Inr t2"
        by (auto simp: shutil_copy2_def Let_def os_path_isdir_def stat_KDir
            split: if_splits sum.splits option.splits node.splits)
      then show ?thesis using write_file_Inr(4) rf by blast
    qed
    let ?st2 = "st\<lparr>disk := t2, file_copied_counter := file_copied_counter st + 1\<rparr>"
    have wl: "write_log a (log_line a f '' copied to replica folder'') ?st2 = Inr st'"
      using ok False unfolding cf mk by (simp add: chk cp)
    note l = write_log_Inr[OF wl]
    from l(1) obtain cl where cl: "stat (disk st') =
        (if log_file a = [] then stat t2 else (stat t2)(log_file a \<mapsto> KFile cl))"
      by (auto cong del: if_weak_cong)
    have d: "stat t1 rf = None \<or>
         (\<exists>c'. stat t1 rf = Some (KFile c') \<and> hexdigest (md5 c') \<noteq> hexdigest (md5 c))"
      using ic False c by auto
    show ?thesis
      apply (rule exI[of _ c], rule exI[of _ t1], rule exI[of _ t2], rule exI[of _ cl])
      using keep[OF c] s1 par d s2 cl l(2-7) w1 w2 by simp
  qed
qed


lemma Inr_final: "\<not> isl r \<Longrightarrow> r = Inr (final r)"
  by (cases r) (simp_all add: final_def)

section \<open>The deletion pass\<close>

lemma separate_facts:
  assumes "separate a"
  shows "log_file a \<noteq> []"
    and "source_folder a @ x \<noteq> log_file a"
    and "replica_folder a @ y \<noteq> log_file a"
    and "source_folder a @ x \<noteq> replica_folder a @ y"
    and "\<not> prefix (source_folder a @ x) (replica_folder a @ y)"
    and "\<not> prefix (replica_folder a @ y) (source_folder a @ x)"
proof -
  from assms have sr: "source_folder a \<parallel> replica_folder a" and ls: "log_file a \<parallel> source_folder a"
    and lr: "log_file a \<parallel> replica_folder a" by (simp_all add: separate_def)
  show "log_file a \<noteq> []" using ls by (auto simp: parallel_def)
  show "source_folder a @ x \<noteq> log_file a" using ls by (metis parallel_def prefixI)
  show "replica_folder a @ y \<noteq> log_file a" using lr by (metis parallel_def prefixI)
  have p: "source_folder a @ x \<parallel> replica_folder a @ y" using sr by (rule parallel_append)
  then show "source_folder a @ x \<noteq> replica_folder a @ y"
    "\<not> prefix (source_folder a @ x) (replica_folder a @ y)"
    "\<not> prefix (replica_folder a @ y) (source_folder a @ x)"
    by (auto simp: parallel_def)
qed

lemma del_step_Inr:
  assumes "del_step a (k, p) st = Inr st'"
  shows "(stat (disk st) (source_folder a @ os_path_relpath p (replica_folder a)) \<noteq> None \<and> st' = st)
     \<or> (stat (disk st) (source_folder a @ os_path_relpath p (replica_folder a)) = None \<and>
         (\<exists>cl. stat (disk st') =
            (if log_file a = [] then (stat (disk st))(p := None)
             else (stat (disk st))(p := None, log_file a \<mapsto> KFile cl))) \<and>
         (if k then \<exists>c. stat (disk st) p = Some (KFile c) else stat (disk st) p = Some KDir) \<and>
         file_removed_counter st' = file_removed_counter st + (if k then 1 else 0) \<and>
         file_copied_counter st' = file_copied_counter st \<and>
         file_identical_counter st' = file_identical_counter st \<and>
         queue st' = queue st)"
    and "wf_fs (disk st) \<Longrightarrow> wf_fs (disk st')"
proof -
  let ?src = "source_folder a @ os_path_relpath p (replica_folder a)"
  have main: "((stat (disk st) ?src \<noteq> None \<and> st' = st)
     \<or> (stat (disk st) ?src = None \<and>
         (\<exists>cl. stat (disk st') =
            (if log_file a = [] then (stat (disk st))(p := None)
             else (stat (disk st))(p := None, log_file a \<mapsto> KFile cl))) \<and>
         (if k then \<exists>c. stat (disk st) p = Some (KFile c) else stat (disk st) p = Some KDir) \<and>
         file_removed_counter st' = file_removed_counter st + (if k then 1 else 0) \<and>
         file_copied_counter st' = file_copied_counter st \<and>
         file_identical_counter st' = file_identical_counter st \<and>
         queue st' = queue st))
     \<and> (wf_fs (disk st) \<longrightarrow> wf_fs (disk st'))"
  proof (cases "os_path_exists (disk st) ?src")
    case True
    then have "st' = st" using assms by (simp add: del_step_def)
    moreover have "stat (disk st) ?src \<noteq> None"
      using True by (simp add: os_path_exists_def stat_None)
    ultimately show ?thesis by blast
  next
    case False
    then have n: "stat (disk st) ?src = None" by (simp add: os_path_exists_def stat_None)
    from assms False obtain t where op: "(if k then os_remove (disk st) p else os_rmdir (disk st) p) = Inr t"
      by (auto simp: del_step_def split: sum.splits)
    let ?st1 = "if k then st\<lparr>disk := t, file_removed_counter := file_removed_counter st + 1\<rparr>
                else st\<lparr>disk := t\<rparr>"
    have wl: "write_log a (log_line a p '' removed from replica folder'') ?st1 = Inr st'"
      using assms False op by (simp add: del_step_def)
    note l = write_log_Inr[OF wl]
    have d1: "disk ?st1 = t" by simp
    have s: "stat t = (stat (disk st))(p := None)"
      and kd: "if k then \<exists>c. stat (disk st) p = Some (KFile c) else stat (disk st) p = Some KDir"
      and w: "wf_fs (disk st) \<longrightarrow> wf_fs t"
      using op os_remove_Inr[of "disk st" p t] os_rmdir_Inr[of "disk st" p t]
      by (auto simp: stat_KDir split: if_splits)
    from l(1) obtain cl where "stat (disk st') =
       (if log_file a = [] then stat t else (stat t)(log_file a \<mapsto> KFile cl))"
      unfolding d1 by blast
    then have 1: "\<exists>cl. stat (disk st') =
            (if log_file a = [] then (stat (disk st))(p := None)
             else (stat (disk st))(p := None, log_file a \<mapsto> KFile cl))"
      unfolding s by blast
    have 2: "file_removed_counter st' = file_removed_counter st + (if k then 1 else 0)"
      "file_copied_counter st' = file_copied_counter st"
      "file_identical_counter st' = file_identical_counter st" "queue st' = queue st"
      using l(2-5) by (simp_all split: if_splits)
    have 3: "wf_fs (disk st) \<longrightarrow> wf_fs (disk st')" using l(6) w unfolding d1 by blast
    show ?thesis using n 1 kd 2 3 by blast
  qed
  from main show "(stat (disk st) ?src \<noteq> None \<and> st' = st)
     \<or> (stat (disk st) ?src = None \<and>
         (\<exists>cl. stat (disk st') =
            (if log_file a = [] then (stat (disk st))(p := None)
             else (stat (disk st))(p := None, log_file a \<mapsto> KFile cl))) \<and>
         (if k then \<exists>c. stat (disk st) p = Some (KFile c) else stat (disk st) p = Some KDir) \<and>
         file_removed_counter st' = file_removed_counter st + (if k then 1 else 0) \<and>
         file_copied_counter st' = file_copied_counter st \<and>
         file_identical_counter st' = file_identical_counter st \<and>
         queue st' = queue st)" by blast
  from main show "wf_fs (disk st) \<Longrightarrow> wf_fs (disk st')" by blast
qed

text \<open>
  The deletion steps over entries below the replica folder, when the three places are
  apart and nothing is raised.
\<close>

lemma deletion_steps_Inr:
  assumes sep: "separate a"
    and "\<forall>e \<in> set es. prefix (replica_folder a) (snd e)"
    and "run_steps (del_step a) es st = Inr st'"
  shows "(\<forall>q. q \<noteq> log_file a \<longrightarrow>
            stat (disk st') q =
              (if q \<in> snd ` set es \<and> gone a (disk st) q then None else stat (disk st) q))
       \<and> file_removed_counter st' =
           file_removed_counter st + length (filter (\<lambda>e. fst e \<and> gone a (disk st) (snd e)) es)
       \<and> file_copied_counter st' = file_copied_counter st
       \<and> file_identical_counter st' = file_identical_counter st
       \<and> queue st' = queue st
       \<and> (wf_fs (disk st) \<longrightarrow> wf_fs (disk st'))
       \<and> (stat (disk st') (log_file a) = stat (disk st) (log_file a) \<or>
          (\<exists>c. stat (disk st') (log_file a) = Some (KFile c)))"
  using assms(2,3)
proof (induction es arbitrary: st)
  case Nil
  then show ?case by simp
next
  case (Cons e es)
  obtain k p where e: "e = (k, p)" by (cases e) auto
  from Cons.prems(1) obtain y where p: "p = replica_folder a @ y"
    by (auto simp: e prefix_def)
  from Cons.prems(2) obtain st1 where s1: "del_step a (k, p) st = Inr st1"
    and rest: "run_steps (del_step a) es st1 = Inr st'"
    by (auto simp: e split: sum.splits)
  note d = del_step_Inr[OF s1]
  note lne = separate_facts(1)[OF sep]
  have src_same: "stat (disk st1) (source_folder a @ x) = stat (disk st) (source_folder a @ x)" for x
    using d(1) separate_facts(2,4)[OF sep, of x] lne unfolding p by auto
  have gone_same: "gone a (disk st1) q = gone a (disk st) q" for q
    by (simp add: gone_def src_same)
  from Cons.prems(1) have "\<forall>e \<in> set es. prefix (replica_folder a) (snd e)" by simp
  note IH = Cons.IH[OF this rest, unfolded gone_same]
  have step: "\<forall>q. q \<noteq> log_file a \<longrightarrow>
      stat (disk st1) q = (if q = p \<and> gone a (disk st) p then None else stat (disk st) q)"
    using d(1) lne by (auto simp: gone_def)
  have A: "\<forall>q. q \<noteq> log_file a \<longrightarrow>
            stat (disk st') q =
              (if q \<in> snd ` set (e # es) \<and> gone a (disk st) q then None else stat (disk st) q)"
    using IH step by (auto simp: e)
  have C: "file_removed_counter st' =
           file_removed_counter st + length (filter (\<lambda>e. fst e \<and> gone a (disk st) (snd e)) (e # es))"
    using IH d(1) by (auto simp: e gone_def)
  have D: "file_copied_counter st' = file_copied_counter st"
    "file_identical_counter st' = file_identical_counter st" "queue st' = queue st"
    using IH d(1) by auto
  have W: "wf_fs (disk st) \<longrightarrow> wf_fs (disk st')" using IH d(2) by blast
  have L: "stat (disk st') (log_file a) = stat (disk st) (log_file a) \<or>
          (\<exists>c. stat (disk st') (log_file a) = Some (KFile c))"
    using IH d(1) lne by auto
  show ?case using A C D W L by blast
qed

section \<open>What the deletion pass removes\<close>

lemma relpath_append [simp]: "os_path_relpath (p @ r) p = r"
  by (simp add: os_path_relpath_def)

lemma gone_replica [simp]:
  "gone a t (replica_folder a @ rel) \<longleftrightarrow> stat t (source_folder a @ rel) = None"
  by (simp add: gone_def)

lemma os_walk_entries:
  assumes "wf_fs t"
  shows "(k, q) \<in> set (del_entries (os_walk t tp False)) \<longleftrightarrow>
         (\<exists>rel m. rel \<noteq> [] \<and> q = tp @ rel \<and> lookup t (tp @ rel) = Some m \<and> k = (\<not> is_Dir m))"
proof (cases "lookup t tp")
  case None
  then show ?thesis by (simp add: os_walk_def del_entries_def lookup_append)
next
  case (Some n)
  have "wf_fs n" using assms Some by (rule wf_lookup)
  from in_walk_entries[OF this, of k q tp] show ?thesis
    by (simp add: os_walk_def Some lookup_append)
qed

text \<open>The deletion pass of a run, when the three places are apart and nothing is raised.\<close>

lemma deletion_pass_Inr:
  assumes sep: "separate a" and w: "wf_fs (disk st)"
    and ok: "deletion_pass a (os_walk (disk st) (replica_folder a) False) st = Inr st'"
  shows "rel \<noteq> [] \<Longrightarrow> stat (disk st') (replica_folder a @ rel) =
           (if stat (disk st) (source_folder a @ rel) = None then None
            else stat (disk st) (replica_folder a @ rel))"
    and "q \<noteq> log_file a \<Longrightarrow> \<not> strict_prefix (replica_folder a) q \<Longrightarrow>
           stat (disk st') q = stat (disk st) q"
    and "file_removed_counter st' = file_removed_counter st +
           length (filter (\<lambda>e. fst e \<and> gone a (disk st) (snd e))
                     (del_entries (os_walk (disk st) (replica_folder a) False)))"
    and "file_copied_counter st' = file_copied_counter st"
    and "file_identical_counter st' = file_identical_counter st"
    and "queue st' = queue st"
    and "wf_fs (disk st')"
    and "stat (disk st') (log_file a) = stat (disk st) (log_file a) \<or>
          (\<exists>c. stat (disk st') (log_file a) = Some (KFile c))"
proof -
  let ?es = "del_entries (os_walk (disk st) (replica_folder a) False)"
  have below: "\<forall>e \<in> set ?es. prefix (replica_folder a) (snd e)"
    using os_walk_entries_below by blast
  from ok have run: "run_steps (del_step a) ?es st = Inr st'" by (simp add: deletion_pass_steps)
  note D = deletion_steps_Inr[OF sep below run]
  have mem: "q \<in> snd ` set ?es \<longleftrightarrow>
      (\<exists>rel. rel \<noteq> [] \<and> q = replica_folder a @ rel \<and> stat (disk st) q \<noteq> None)" for q
  proof -
    have "q \<in> snd ` set ?es \<longleftrightarrow> (\<exists>k. (k, q) \<in> set ?es)" by force
    also have "\<dots> \<longleftrightarrow> (\<exists>rel. rel \<noteq> [] \<and> q = replica_folder a @ rel \<and> stat (disk st) q \<noteq> None)"
      using os_walk_entries[OF w, of _ q "replica_folder a"] by (auto simp: stat_None)
    finally show ?thesis .
  qed
  show "stat (disk st') (replica_folder a @ rel) =
           (if stat (disk st) (source_folder a @ rel) = None then None
            else stat (disk st) (replica_folder a @ rel))" if "rel \<noteq> []"
  proof -
    have "replica_folder a @ rel \<noteq> log_file a" by (rule separate_facts(3)[OF sep])
    then have "stat (disk st') (replica_folder a @ rel) =
       (if replica_folder a @ rel \<in> snd ` set ?es \<and> gone a (disk st) (replica_folder a @ rel)
        then None else stat (disk st) (replica_folder a @ rel))"
      using D by blast
    then show ?thesis using that by (auto simp: mem)
  qed
  show "stat (disk st') q = stat (disk st) q"
    if "q \<noteq> log_file a" "\<not> strict_prefix (replica_folder a) q" for q
  proof -
    have "q \<notin> snd ` set ?es" using that(2) by (auto simp: mem strict_prefix_def)
    then show ?thesis using D that(1) by auto
  qed
  show "file_removed_counter st' = file_removed_counter st +
           length (filter (\<lambda>e. fst e \<and> gone a (disk st) (snd e)) ?es)"
    "file_copied_counter st' = file_copied_counter st"
    "file_identical_counter st' = file_identical_counter st"
    "queue st' = queue st"
    "wf_fs (disk st')"
    "stat (disk st') (log_file a) = stat (disk st) (log_file a) \<or>
          (\<exists>c. stat (disk st') (log_file a) = Some (KFile c))"
    using D w by blast+
qed

text \<open>
  C9, as amended. When the source folder, the replica folder and the log file are apart and the
  deletion pass raises nothing, a path under the replica folder holds nothing after the
  pass if the same path under the source folder holds nothing, and holds what it held
  before if the source path holds anything, a file or a directory: the kinds of the two
  entries are not compared.
\<close>

theorem deletion_pass_removes_iff_source_absent:
  assumes "separate a" and "wf_fs (disk st)"
    and "deletion_pass a (os_walk (disk st) (replica_folder a) False) st = Inr st'"
    and "rel \<noteq> []"
  shows "stat (disk st') (replica_folder a @ rel) =
           (if stat (disk st) (source_folder a @ rel) = None then None
            else stat (disk st) (replica_folder a @ rel))"
  using deletion_pass_Inr(1)[OF assms] .


theorem deletion_pass_removes_iff_source_absent_witness:
  "separate \<lparr>source_folder = [''s''], replica_folder = [''r''], log_file = [''log''],
         backup_interval = 60, timestamp = ''T''\<rparr>
   \<and> wf_fs (Dir [(''s'', Dir [(''d'', File ''1''), (''k'', Dir [])]),
                 (''r'', Dir [(''d'', Dir [(''x'', File ''0'')]), (''k'', File ''2''),
                             (''o'', File ''3'')])])
   \<and> stat (disk (final (deletion_pass
        \<lparr>source_folder = [''s''], replica_folder = [''r''], log_file = [''log''],
          backup_interval = 60, timestamp = ''T''\<rparr>
        (os_walk (Dir [(''s'', Dir [(''d'', File ''1''), (''k'', Dir [])]),
                 (''r'', Dir [(''d'', Dir [(''x'', File ''0'')]), (''k'', File ''2''),
                             (''o'', File ''3'')])]) [''r''] False)
        \<lparr>disk = Dir [(''s'', Dir [(''d'', File ''1''), (''k'', Dir [])]),
                 (''r'', Dir [(''d'', Dir [(''x'', File ''0'')]), (''k'', File ''2''),
                             (''o'', File ''3'')])],
          file_copied_counter = 0, file_removed_counter = 0, file_identical_counter = 0,
          queue = []\<rparr>))) [''r'', ''d''] = Some KDir
   \<and> stat (disk (final (deletion_pass
        \<lparr>source_folder = [''s''], replica_folder = [''r''], log_file = [''log''],
          backup_interval = 60, timestamp = ''T''\<rparr>
        (os_walk (Dir [(''s'', Dir [(''d'', File ''1''), (''k'', Dir [])]),
                 (''r'', Dir [(''d'', Dir [(''x'', File ''0'')]), (''k'', File ''2''),
                             (''o'', File ''3'')])]) [''r''] False)
        \<lparr>disk = Dir [(''s'', Dir [(''d'', File ''1''), (''k'', Dir [])]),
                 (''r'', Dir [(''d'', Dir [(''x'', File ''0'')]), (''k'', File ''2''),
                             (''o'', File ''3'')])],
          file_copied_counter = 0, file_removed_counter = 0, file_identical_counter = 0,
          queue = []\<rparr>))) [''r'', ''o''] = None"
proof -
  let ?a = "\<lparr>source_folder = [''s''], replica_folder = [''r''], log_file = [''log''],
         backup_interval = 60, timestamp = ''T''\<rparr>"
  let ?t = "Dir [(''s'', Dir [(''d'', File ''1''), (''k'', Dir [])]),
                 (''r'', Dir [(''d'', Dir [(''x'', File ''0'')]), (''k'', File ''2''),
                             (''o'', File ''3'')])]"
  let ?st = "\<lparr>disk = ?t, file_copied_counter = 0, file_removed_counter = 0,
          file_identical_counter = 0, queue = []\<rparr>"
  let ?r = "deletion_pass ?a (os_walk (disk ?st) (replica_folder ?a) False) ?st"
  have sep: "separate ?a" by (simp add: separate_def parallel_def)
  have w: "wf_fs (disk ?st)" by simp
  have ok: "\<not> isl ?r" by (simp add: run_defs)
  have 1: "stat (disk ?st) (source_folder ?a @ [''d'']) \<noteq> None"
    "stat (disk ?st) (replica_folder ?a @ [''d'']) = Some KDir"
    "stat (disk ?st) (source_folder ?a @ [''o'']) = None"
    by (simp_all add: stat_def)
  have "stat (disk (final ?r)) (replica_folder ?a @ [''d'']) = Some KDir"
    using deletion_pass_removes_iff_source_absent[OF sep w Inr_final[OF ok], of "[''d'']"] 1
    by simp
  moreover have "stat (disk (final ?r)) (replica_folder ?a @ [''o'']) = None"
    using deletion_pass_removes_iff_source_absent[OF sep w Inr_final[OF ok], of "[''o'']"] 1
    by simp
  ultimately show ?thesis using sep w by simp
qed

text \<open>
  C9 as stated fails when the source folder lies under the replica folder: the pass
  tests the source path when it reaches the replica entry, and by then it has removed
  what the source path held. The replica file \<open>r/k\<close> is removed although its source path
  \<open>r/s/k\<close> held a directory before the pass.
\<close>

theorem deletion_pass_nested_source_counterexample:
  "\<not> isl (deletion_pass
       \<lparr>source_folder = [''r'', ''s''], replica_folder = [''r''], log_file = [''log''],
         backup_interval = 60, timestamp = ''T''\<rparr>
       (os_walk (Dir [(''r'', Dir [(''s'', Dir [(''k'', Dir [])]), (''k'', File ''x'')])]) [''r''] False)
       \<lparr>disk = Dir [(''r'', Dir [(''s'', Dir [(''k'', Dir [])]), (''k'', File ''x'')])],
         file_copied_counter = 0, file_removed_counter = 0, file_identical_counter = 0,
         queue = []\<rparr>)
   \<and> stat (Dir [(''r'', Dir [(''s'', Dir [(''k'', Dir [])]), (''k'', File ''x'')])])
        ([''r'', ''s''] @ os_path_relpath [''r'', ''k''] [''r'']) = Some KDir
   \<and> stat (Dir [(''r'', Dir [(''s'', Dir [(''k'', Dir [])]), (''k'', File ''x'')])])
        [''r'', ''k''] = Some (KFile ''x'')
   \<and> stat (disk (final (deletion_pass
       \<lparr>source_folder = [''r'', ''s''], replica_folder = [''r''], log_file = [''log''],
         backup_interval = 60, timestamp = ''T''\<rparr>
       (os_walk (Dir [(''r'', Dir [(''s'', Dir [(''k'', Dir [])]), (''k'', File ''x'')])]) [''r''] False)
       \<lparr>disk = Dir [(''r'', Dir [(''s'', Dir [(''k'', Dir [])]), (''k'', File ''x'')])],
         file_copied_counter = 0, file_removed_counter = 0, file_identical_counter = 0,
         queue = []\<rparr>))) [''r'', ''k''] = None"
  by (simp add: run_defs final_def)

section \<open>The copy pass\<close>

lemma butlast_replica: "r \<noteq> [] \<Longrightarrow> butlast (replica_folder a @ r) = replica_folder a @ butlast r"
  by (simp add: butlast_append)

lemma not_prefix_butlast: "r \<noteq> [] \<Longrightarrow> \<not> prefix r (butlast r)"
  by (cases r rule: rev_cases) (auto simp: prefix_def)

text \<open>One round of the copy loop when the three places are apart.\<close>

lemma copy_file_sep:
  assumes sep: "separate a" and r: "r \<noteq> []"
    and ok: "copy_file a (source_folder a @ r) st = Inr st'"
  shows "\<forall>x. stat (disk st') (source_folder a @ x) = stat (disk st) (source_folder a @ x)"
    and "synced a (disk st') r"
    and "\<forall>rel. rel \<noteq> r \<longrightarrow> stat (disk st') (replica_folder a @ rel) =
           (if prefix rel (butlast r) \<and> stat (disk st) (replica_folder a @ rel) = None
            then Some KDir else stat (disk st) (replica_folder a @ rel))"
    and "\<exists>c. stat (disk st') (log_file a) = Some (KFile c)"
    and "file_copied_counter st' + file_identical_counter st' =
         file_copied_counter st + file_identical_counter st + 1"
    and "file_removed_counter st' = file_removed_counter st"
    and "queue st' = queue st"
    and "wf_fs (disk st) \<Longrightarrow> wf_fs (disk st')"
    and "synced a (disk st) r \<Longrightarrow>
           file_identical_counter st' = file_identical_counter st + 1 \<and>
           file_copied_counter st' = file_copied_counter st \<and>
           (\<forall>q. q \<noteq> log_file a \<longrightarrow> stat (disk st') q = stat (disk st) q)"
proof -
  let ?rf = "replica_folder a @ r"
  have rp: "os_path_relpath (source_folder a @ r) (source_folder a) \<noteq> []" using r by simp
  have rfeq: "?rf = replica_folder a @ os_path_relpath (source_folder a @ r) (source_folder a)"
    by simp
  from copy_file_Inr[OF ok rp rfeq] obtain c t1 t2 cl where
    c: "stat (disk st) (source_folder a @ r) = Some (KFile c)"
    and s1: "stat t1 = (\<lambda>q. if prefix q (butlast ?rf) \<and> stat (disk st) q = None then Some KDir
                     else stat (disk st) q)"
    and par: "stat t1 (butlast ?rf) = Some KDir"
    and alt: "(\<exists>c'. stat t1 ?rf = Some (KFile c') \<and> hexdigest (md5 c') = hexdigest (md5 c)) \<and>
        t2 = t1 \<and>
        file_identical_counter st' = file_identical_counter st + 1 \<and>
        file_copied_counter st' = file_copied_counter st
      \<or>
      (stat t1 ?rf = None \<or>
         (\<exists>c'. stat t1 ?rf = Some (KFile c') \<and> hexdigest (md5 c') \<noteq> hexdigest (md5 c))) \<and>
        stat t2 = (stat t1)(?rf \<mapsto> KFile c) \<and>
        file_identical_counter st' = file_identical_counter st \<and>
        file_copied_counter st' = file_copied_counter st + 1"
    and l: "stat (disk st') = (if log_file a = [] then stat t2 else (stat t2)(log_file a \<mapsto> KFile cl))"
    and rest: "file_removed_counter st' = file_removed_counter st" "queue st' = queue st"
      "wf_fs (disk st) \<longrightarrow> wf_fs (disk st')"
    by blast
  note lne = separate_facts(1)[OF sep]
  have l': "stat (disk st') = (stat t2)(log_file a \<mapsto> KFile cl)" using l lne by simp
  have bl: "butlast ?rf = replica_folder a @ butlast r" using r by (rule butlast_replica)
  have src1: "stat t1 (source_folder a @ x) = stat (disk st) (source_folder a @ x)" for x
    using s1 separate_facts(5)[OF sep, of x "butlast r"] by (simp add: bl)
  have rep1: "stat t1 (replica_folder a @ rel) =
       (if prefix rel (butlast r) \<and> stat (disk st) (replica_folder a @ rel) = None
        then Some KDir else stat (disk st) (replica_folder a @ rel))" for rel
    using s1 by (simp add: bl)
  have np: "\<not> prefix r (butlast r)"
    using r by (rule not_prefix_butlast)
  have rf1: "stat t1 ?rf = stat (disk st) ?rf" using rep1[of r] np by simp
  have t2: "stat t2 = stat t1 \<or> stat t2 = (stat t1)(?rf \<mapsto> KFile c)" using alt by auto
  have src2: "stat t2 (source_folder a @ x) = stat (disk st) (source_folder a @ x)" for x
    using t2 src1 separate_facts(4)[OF sep, of x r] by auto
  show "\<forall>x. stat (disk st') (source_folder a @ x) = stat (disk st) (source_folder a @ x)"
    using l' src2 separate_facts(2)[OF sep] by auto
  have "\<exists>c'. stat t2 ?rf = Some (KFile c') \<and> hexdigest (md5 c') = hexdigest (md5 c)"
    using alt by auto
  then have "\<exists>c'. stat (disk st') ?rf = Some (KFile c') \<and> hexdigest (md5 c') = hexdigest (md5 c)"
    using l' separate_facts(3)[OF sep, of r] by auto
  moreover have "stat (disk st') (source_folder a @ r) = Some (KFile c)"
    using l' src2 c separate_facts(2)[OF sep, of r] by auto
  ultimately show "synced a (disk st') r" by (auto simp: synced_def)
  show "\<forall>rel. rel \<noteq> r \<longrightarrow> stat (disk st') (replica_folder a @ rel) =
           (if prefix rel (butlast r) \<and> stat (disk st) (replica_folder a @ rel) = None
            then Some KDir else stat (disk st) (replica_folder a @ rel))"
  proof (intro allI impI)
    fix rel assume "rel \<noteq> r"
    then have "stat t2 (replica_folder a @ rel) = stat t1 (replica_folder a @ rel)"
      using t2 by auto
    then show "stat (disk st') (replica_folder a @ rel) =
           (if prefix rel (butlast r) \<and> stat (disk st) (replica_folder a @ rel) = None
            then Some KDir else stat (disk st) (replica_folder a @ rel))"
      using l' rep1[of rel] separate_facts(3)[OF sep, of rel] by auto
  qed
  show "\<exists>c. stat (disk st') (log_file a) = Some (KFile c)" using l' by simp
  show "file_copied_counter st' + file_identical_counter st' =
         file_copied_counter st + file_identical_counter st + 1" using alt by auto
  show "file_removed_counter st' = file_removed_counter st" "queue st' = queue st"
    "wf_fs (disk st) \<Longrightarrow> wf_fs (disk st')" using rest by auto
  show "file_identical_counter st' = file_identical_counter st + 1 \<and>
           file_copied_counter st' = file_copied_counter st \<and>
           (\<forall>q. q \<noteq> log_file a \<longrightarrow> stat (disk st') q = stat (disk st) q)"
    if "synced a (disk st) r"
  proof -
    from that c obtain c' where c': "stat (disk st) ?rf = Some (KFile c')"
      "hexdigest (md5 c') = hexdigest (md5 c)" by (auto simp: synced_def)
    with alt rf1 have skip: "t2 = t1" "file_identical_counter st' = file_identical_counter st + 1"
      "file_copied_counter st' = file_copied_counter st" by auto
    have ex: "lookup (disk st) ?rf \<noteq> None" using c'(1) by (simp add: stat_KFile)
    have "stat (disk st) q \<noteq> None" if "prefix q (butlast ?rf)" for q
      using lookup_prefix_exists[OF ex, of q] that prefixeq_butlast[of ?rf]
      by (auto simp: stat_None)
    then have "stat t1 = stat (disk st)" using s1 by auto
    then show ?thesis using skip l' by auto
  qed
qed

lemma synced_kept:
  assumes sep: "separate a" and r: "r \<noteq> []"
    and ok: "copy_file a (source_folder a @ r) st = Inr st'"
    and s: "synced a (disk st) r'"
  shows "synced a (disk st') r'"
proof (cases "r' = r")
  case True
  then show ?thesis using copy_file_sep(2)[OF sep r ok] by simp
next
  case False
  note c = copy_file_sep(1,3)[OF sep r ok]
  from s obtain c0 c1 where "stat (disk st) (source_folder a @ r') = Some (KFile c0)"
    "stat (disk st) (replica_folder a @ r') = Some (KFile c1)"
    "hexdigest (md5 c1) = hexdigest (md5 c0)" by (auto simp: synced_def)
  then show ?thesis using c False by (auto simp: synced_def)
qed

lemma orphan_free_kept:
  assumes sep: "separate a" and r: "r \<noteq> []"
    and ok: "copy_file a (source_folder a @ r) st = Inr st'"
    and o: "orphan_free a (disk st)"
  shows "orphan_free a (disk st')"
  unfolding orphan_free_def
proof (intro allI impI)
  fix rel assume rel: "rel \<noteq> []" and ex: "stat (disk st') (replica_folder a @ rel) \<noteq> None"
  note c = copy_file_sep(1,2,3)[OF sep r ok]
  from c(2) have sr: "stat (disk st') (source_folder a @ r) \<noteq> None" by (auto simp: synced_def)
  show "stat (disk st') (source_folder a @ rel) \<noteq> None"
  proof (cases "rel = r")
    case True
    then show ?thesis using sr by simp
  next
    case False
    show ?thesis
    proof (cases "prefix rel (butlast r) \<and> stat (disk st) (replica_folder a @ rel) = None")
      case True
      then have "prefix (source_folder a @ rel) (source_folder a @ r)"
        using prefixeq_butlast[of r] by (auto intro: prefix_order.trans)
      then show ?thesis using sr lookup_prefix_exists[of "disk st'" "source_folder a @ r"]
        by (auto simp: stat_None)
    next
      case no: False
      then have "stat (disk st) (replica_folder a @ rel) \<noteq> None" using c(3) False ex by auto
      then show ?thesis using o rel c(1) by (auto simp: orphan_free_def)
    qed
  qed
qed

text \<open>The copy pass over source files, when the three places are apart and nothing is raised.\<close>

lemma copy_pass_Inr:
  assumes sep: "separate a"
    and "\<forall>f \<in> set fs. \<exists>r. r \<noteq> [] \<and> f = source_folder a @ r"
    and "run_steps (copy_file a) fs st = Inr st'"
  shows "(\<forall>x. stat (disk st') (source_folder a @ x) = stat (disk st) (source_folder a @ x))
       \<and> (\<forall>r. source_folder a @ r \<in> set fs \<longrightarrow> synced a (disk st') r)
       \<and> (\<forall>r. synced a (disk st) r \<longrightarrow> synced a (disk st') r)
       \<and> (orphan_free a (disk st) \<longrightarrow> orphan_free a (disk st'))
       \<and> file_copied_counter st' + file_identical_counter st' =
           file_copied_counter st + file_identical_counter st + length fs
       \<and> file_removed_counter st' = file_removed_counter st
       \<and> queue st' = queue st
       \<and> (wf_fs (disk st) \<longrightarrow> wf_fs (disk st'))
       \<and> (stat (disk st') (log_file a) = stat (disk st) (log_file a) \<or>
          (\<exists>c. stat (disk st') (log_file a) = Some (KFile c)))"
  using assms(2,3)
proof (induction fs arbitrary: st)
  case Nil
  then show ?case by simp
next
  case (Cons f fs)
  from Cons.prems(1) obtain r where r: "r \<noteq> []" "f = source_folder a @ r" by auto
  from Cons.prems(2) obtain st1 where s1: "copy_file a (source_folder a @ r) st = Inr st1"
    and rest: "run_steps (copy_file a) fs st1 = Inr st'"
    by (auto simp: r split: sum.splits)
  note c = copy_file_sep[OF sep r(1) s1]
  from Cons.prems(1) have "\<forall>f \<in> set fs. \<exists>r. r \<noteq> [] \<and> f = source_folder a @ r" by simp
  note IH = Cons.IH[OF this rest]
  have 1: "\<forall>x. stat (disk st') (source_folder a @ x) = stat (disk st) (source_folder a @ x)"
    using IH c(1) by simp
  have 2: "\<forall>r'. source_folder a @ r' \<in> set (f # fs) \<longrightarrow> synced a (disk st') r'"
    using IH c(2) by (auto simp: r)
  have 3: "\<forall>r'. synced a (disk st) r' \<longrightarrow> synced a (disk st') r'"
    using IH synced_kept[OF sep r(1) s1] by blast
  have 4: "orphan_free a (disk st) \<longrightarrow> orphan_free a (disk st')"
    using IH orphan_free_kept[OF sep r(1) s1] by blast
  have 5: "file_copied_counter st' + file_identical_counter st' =
           file_copied_counter st + file_identical_counter st + length (f # fs)"
    "file_removed_counter st' = file_removed_counter st" "queue st' = queue st"
    using IH c(5,6,7) by auto
  have 6: "wf_fs (disk st) \<longrightarrow> wf_fs (disk st')" using IH c(8) by blast
  have 7: "stat (disk st') (log_file a) = stat (disk st) (log_file a) \<or>
          (\<exists>c. stat (disk st') (log_file a) = Some (KFile c))"
    using IH c(4) by auto
  show ?case using 1 2 3 4 5 6 7 by blast
qed

section \<open>Computing MD5; a collision\<close>

lemma upt_16: "[0..<16] = [0, 1, 2, 3, 4, 5, 6, 7, 8, 9, 10, 11, 12, 13, 14, 15]"
  by (simp add: upt_rec)

lemma upt_64:
  "[0..<64] =
     [0..<16] @ map ((+) 16) [0..<16] @ map ((+) 32) [0..<16] @ map ((+) 48) [0..<16]"
  by (simp add: upt_rec)

lemma replicate_55:
  "replicate 55 x =
    [x, x, x, x, x, x, x, x, x, x, x, x, x, x, x, x, x, x, x, x, x, x, x, x, x, x, x, x,
     x, x, x, x, x, x, x, x, x, x, x, x, x, x, x, x, x, x, x, x, x, x, x, x, x, x, x]"
  by (simp add: numeral_eq_Suc)

lemma of_char_char_of_nat: "(of_char (char_of (n::nat)) :: w32) = of_nat (n mod 256)"
  by (metis of_nat_of_char of_char_of)

text \<open>A step with its results cut to 32 bits, which changes nothing and keeps numerals short.\<close>

lemma md5_step_cut:
  "md5_step M i (A, B, C, D) =
     (let (F, g) =
            (if i < 16 then ((B AND C) OR (NOT B AND D), i)
             else if i < 32 then ((D AND B) OR (NOT D AND C), (5 * i + 1) mod 16)
             else if i < 48 then (B XOR C XOR D, (3 * i + 5) mod 16)
             else (C XOR (B OR NOT D), (7 * i) mod 16));
          F' = take_bit 32 (F + A + md5_K ! i + M ! g)
      in (D, take_bit 32 (B + take_bit 32 (rotl32 F' (md5_s ! i))), B, C))"
  by (simp add: md5_step_def Let_def take_bit_word_eq_self split: prod.splits)

lemmas md5_block_eval = md5_block_def upt_64 upt_16 md5_step_cut md5_K_def md5_s_def rotl32_def

lemma block_a1:
  "md5_block (0x67452301, 0xefcdab89, 0x98badcfe, 0x10325476)
     [0x02dd31d1, 0xc4eee6c5, 0x069a3d69, 0x5cf9af98, 0x87b5ca2f, 0xab7e4612, 0x3e580440, 0x897ffbb8,
      0x0634ad55, 0x02b3f409, 0x8388e483, 0x5a417125, 0xe8255108, 0x9fc9cdf7, 0xf2bd1dd9, 0x5b3c3780]
   = (0x52589324, 0x3093d7ca, 0x2a06dc54, 0x20c5be06)"
  by (simp add: md5_block_eval)

lemma block_a2:
  "md5_block (0x52589324, 0x3093d7ca, 0x2a06dc54, 0x20c5be06)
     [0x313e82d8, 0x5b8f3456, 0xd4ac6dae, 0xc619c936, 0xb4e253dd, 0xfd03da87, 0x06633902, 0xa0cd48d2,
      0x42339fe9, 0xe87e570f, 0x70b654ce, 0x1e0da880, 0xbc2198c6, 0x9383a8b6, 0x2b65f996, 0x702af76f]
   = (0x8d5e7019, 0x61804e08, 0x715d6b58, 0x6324c015)"
  by (simp add: md5_block_eval)

lemma block_b1:
  "md5_block (0x67452301, 0xefcdab89, 0x98badcfe, 0x10325476)
     [0x02dd31d1, 0xc4eee6c5, 0x069a3d69, 0x5cf9af98, 0x07b5ca2f, 0xab7e4612, 0x3e580440, 0x897ffbb8,
      0x0634ad55, 0x02b3f409, 0x8388e483, 0x5a41f125, 0xe8255108, 0x9fc9cdf7, 0x72bd1dd9, 0x5b3c3780]
   = (0xd2589324, 0xb293d7ca, 0xac06dc54, 0xa2c5be06)"
  by (simp add: md5_block_eval)

lemma block_b2:
  "md5_block (0xd2589324, 0xb293d7ca, 0xac06dc54, 0xa2c5be06)
     [0x313e82d8, 0x5b8f3456, 0xd4ac6dae, 0xc619c936, 0x34e253dd, 0xfd03da87, 0x06633902, 0xa0cd48d2,
      0x42339fe9, 0xe87e570f, 0x70b654ce, 0x1e0d2880, 0xbc2198c6, 0x9383a8b6, 0xab65f996, 0x702af76f]
   = (0x8d5e7019, 0x61804e08, 0x715d6b58, 0x6324c015)"
  by (simp add: md5_block_eval)

lemma blocks_3: "blocks 3 ws = [take 16 ws, take 16 (drop 16 ws), take 16 (drop 32 ws)]"
  by (simp add: numeral_3_eq_3)

lemma length_collision: "length collision_a = 128" "length collision_b = 128"
  by (simp_all add: collision_a_def collision_b_def)

lemma words_a:
  "le_words (md5_pad collision_a) =
     [0x02dd31d1, 0xc4eee6c5, 0x069a3d69, 0x5cf9af98, 0x87b5ca2f, 0xab7e4612, 0x3e580440, 0x897ffbb8,
      0x0634ad55, 0x02b3f409, 0x8388e483, 0x5a417125, 0xe8255108, 0x9fc9cdf7, 0xf2bd1dd9, 0x5b3c3780] @
     [0x313e82d8, 0x5b8f3456, 0xd4ac6dae, 0xc619c936, 0xb4e253dd, 0xfd03da87, 0x06633902, 0xa0cd48d2,
      0x42339fe9, 0xe87e570f, 0x70b654ce, 0x1e0da880, 0xbc2198c6, 0x9383a8b6, 0x2b65f996, 0x702af76f] @
     [0x00000080, 0x00000000, 0x00000000, 0x00000000, 0x00000000, 0x00000000, 0x00000000, 0x00000000,
      0x00000000, 0x00000000, 0x00000000, 0x00000000, 0x00000000, 0x00000000, 0x00000400, 0x00000000]"
  unfolding md5_pad_def length_collision
  by (simp add: replicate_55 le_bytes_def upt_rec of_char_char_of_nat collision_a_def)

lemma words_b:
  "le_words (md5_pad collision_b) =
     [0x02dd31d1, 0xc4eee6c5, 0x069a3d69, 0x5cf9af98, 0x07b5ca2f, 0xab7e4612, 0x3e580440, 0x897ffbb8,
      0x0634ad55, 0x02b3f409, 0x8388e483, 0x5a41f125, 0xe8255108, 0x9fc9cdf7, 0x72bd1dd9, 0x5b3c3780] @
     [0x313e82d8, 0x5b8f3456, 0xd4ac6dae, 0xc619c936, 0x34e253dd, 0xfd03da87, 0x06633902, 0xa0cd48d2,
      0x42339fe9, 0xe87e570f, 0x70b654ce, 0x1e0d2880, 0xbc2198c6, 0x9383a8b6, 0xab65f996, 0x702af76f] @
     [0x00000080, 0x00000000, 0x00000000, 0x00000000, 0x00000000, 0x00000000, 0x00000000, 0x00000000,
      0x00000000, 0x00000000, 0x00000000, 0x00000000, 0x00000000, 0x00000000, 0x00000400, 0x00000000]"
  unfolding md5_pad_def length_collision
  by (simp add: replicate_55 le_bytes_def upt_rec of_char_char_of_nat collision_b_def)

lemma md5_collision_a:
  "md5 collision_a =
     md5_block (0x8d5e7019, 0x61804e08, 0x715d6b58, 0x6324c015)
       [0x00000080, 0x00000000, 0x00000000, 0x00000000, 0x00000000, 0x00000000, 0x00000000, 0x00000000,
      0x00000000, 0x00000000, 0x00000000, 0x00000000, 0x00000000, 0x00000000, 0x00000400, 0x00000000]"
  unfolding md5_def Let_def words_a md5_init_def
  by (simp add: blocks_3 block_a1 block_a2)

lemma md5_collision_b:
  "md5 collision_b =
     md5_block (0x8d5e7019, 0x61804e08, 0x715d6b58, 0x6324c015)
       [0x00000080, 0x00000000, 0x00000000, 0x00000000, 0x00000000, 0x00000000, 0x00000000, 0x00000000,
      0x00000000, 0x00000000, 0x00000000, 0x00000000, 0x00000000, 0x00000000, 0x00000400, 0x00000000]"
  unfolding md5_def Let_def words_b md5_init_def
  by (simp add: blocks_3 block_b1 block_b2)

lemma md5_collision: "md5 collision_b = md5 collision_a"
  by (simp add: md5_collision_a md5_collision_b)

lemma collision_distinct: "collision_a \<noteq> collision_b"
  by (simp add: collision_a_def collision_b_def)

lemma blocks_1: "blocks 1 ws = [take 16 ws]"
  by simp

text \<open>Two digests that \<^verbatim>\<open>hashlib\<close> gives as well.\<close>

lemma md5_empty: "hexdigest (md5 '''') = ''d41d8cd98f00b204e9800998ecf8427e''"
proof -
  have "md5 '''' = (0xd98c1dd4, 0x04b2008f, 0x980980e9, 0x7e42f8ec)"
    unfolding md5_def Let_def md5_pad_def md5_init_def
    by (simp add: replicate_55 le_bytes_def upt_rec of_char_char_of_nat blocks_1 md5_block_eval)
  then show ?thesis by (simp add: hexdigest_def hex_word_def hexdigit_def)
qed

lemma md5_collision_digest:
  "hexdigest (md5 collision_a) = ''79054025255fb1a26e4bc422aef54eb4''"
proof -
  have "md5 collision_a = (0x25400579, 0xa2b15f25, 0x22c44b6e, 0xb44ef5ae)"
    unfolding md5_collision_a by (simp add: md5_block_eval)
  then show ?thesis by (simp add: hexdigest_def hex_word_def hexdigit_def)
qed

section \<open>One round of the copy loop, for a file of the scan\<close>

lemma walk_topdown_root_prefix: "t \<in> set (walk_topdown tp n) \<Longrightarrow> prefix tp (fst t)"
  using walk_root_prefix by (simp add: set_walk_eq)

lemma scan_relpath:
  assumes "f \<in> set (scan t src)"
  shows "os_path_relpath f src \<noteq> []"
proof -
  from assms obtain root dirs files name where tr: "(root, dirs, files) \<in> set (os_walk t src True)"
    and f: "f = root @ [name]"
    by (auto simp: scan_def)
  from tr have "prefix src root"
    using walk_topdown_root_prefix[of "(root, dirs, files)" src]
    by (auto simp: os_walk_def split: option.splits)
  then show ?thesis by (auto simp: f os_path_relpath_def prefix_def)
qed

text \<open>
  C4, as amended. One round of the copy loop that raises nothing, for a file of the
  source scan, when the log file does not lie at or under the replica folder. The source
  path holds a regular file. Either the replica path holds a regular file with the same
  digest: then the round counts the file as identical, copies nothing, and changes nothing
  but the log file, so nothing under the replica folder. Or the replica path holds
  nothing, or a regular file with another digest: then the round counts the file as
  copied, the replica path holds the bytes of the source file afterwards, its parent is a
  directory, and nothing has changed but the replica path, the directories above it and
  the log file.
\<close>

theorem copy_file_copies_or_skips:
  assumes "copy_file a f st = Inr st'"
    and "f \<in> set (scan t (source_folder a))"
    and "\<not> prefix (replica_folder a) (log_file a)"
  shows "\<exists>c. stat (disk st) f = Some (KFile c) \<and>
     ((\<exists>c'. stat (disk st) (replica_folder a @ os_path_relpath f (source_folder a)) = Some (KFile c')
            \<and> hexdigest (md5 c') = hexdigest (md5 c)) \<and>
        file_identical_counter st' = file_identical_counter st + 1 \<and>
        file_copied_counter st' = file_copied_counter st \<and>
        (\<forall>q. q \<noteq> log_file a \<longrightarrow> stat (disk st') q = stat (disk st) q) \<and>
        (\<forall>q. prefix (replica_folder a) q \<longrightarrow> stat (disk st') q = stat (disk st) q)
      \<or>
      (stat (disk st) (replica_folder a @ os_path_relpath f (source_folder a)) = None \<or>
       (\<exists>c'. stat (disk st) (replica_folder a @ os_path_relpath f (source_folder a)) = Some (KFile c')
            \<and> hexdigest (md5 c') \<noteq> hexdigest (md5 c))) \<and>
        file_copied_counter st' = file_copied_counter st + 1 \<and>
        file_identical_counter st' = file_identical_counter st \<and>
        stat (disk st') (replica_folder a @ os_path_relpath f (source_folder a)) = Some (KFile c) \<and>
        stat (disk st')
          (os_path_dirname (replica_folder a @ os_path_relpath f (source_folder a))) = Some KDir \<and>
        (\<forall>q. q \<noteq> log_file a \<longrightarrow>
              \<not> prefix q (replica_folder a @ os_path_relpath f (source_folder a)) \<longrightarrow>
              stat (disk st') q = stat (disk st) q))"
proof -
  let ?rf = "replica_folder a @ os_path_relpath f (source_folder a)"
  have rel: "os_path_relpath f (source_folder a) \<noteq> []" using assms(2) by (rule scan_relpath)
  have rf: "?rf \<noteq> []" using rel by simp
  have lrf: "log_file a \<noteq> ?rf"
  proof
    assume "log_file a = ?rf"
    then have "prefix (replica_folder a) (log_file a)" by simp
    with assms(3) show False ..
  qed
  from copy_file_Inr[OF assms(1) rel refl] obtain c t1 t2 cl where
    c: "stat (disk st) f = Some (KFile c)"
    and s1: "stat t1 = (\<lambda>q. if prefix q (butlast ?rf) \<and> stat (disk st) q = None then Some KDir
                     else stat (disk st) q)"
    and par: "stat t1 (butlast ?rf) = Some KDir"
    and alt: "(\<exists>c'. stat t1 ?rf = Some (KFile c') \<and> hexdigest (md5 c') = hexdigest (md5 c)) \<and>
        t2 = t1 \<and>
        file_identical_counter st' = file_identical_counter st + 1 \<and>
        file_copied_counter st' = file_copied_counter st
      \<or>
      (stat t1 ?rf = None \<or>
         (\<exists>c'. stat t1 ?rf = Some (KFile c') \<and> hexdigest (md5 c') \<noteq> hexdigest (md5 c))) \<and>
        stat t2 = (stat t1)(?rf \<mapsto> KFile c) \<and>
        file_identical_counter st' = file_identical_counter st \<and>
        file_copied_counter st' = file_copied_counter st + 1"
    and l: "stat (disk st') = (if log_file a = [] then stat t2 else (stat t2)(log_file a \<mapsto> KFile cl))"
    and nl: "log_file a \<noteq> [] \<longrightarrow> stat t2 (log_file a) \<noteq> Some KDir"
    by blast
  have np: "\<not> prefix ?rf (butlast ?rf)" using rf by (rule not_prefix_butlast)
  have same: "stat t1 ?rf = stat (disk st) ?rf" using s1 np by simp
  have lq: "stat (disk st') q = stat t2 q" if "q \<noteq> log_file a" for q
    using l that by simp
  from alt show ?thesis
  proof
    assume skip: "(\<exists>c'. stat t1 ?rf = Some (KFile c') \<and> hexdigest (md5 c') = hexdigest (md5 c)) \<and>
        t2 = t1 \<and>
        file_identical_counter st' = file_identical_counter st + 1 \<and>
        file_copied_counter st' = file_copied_counter st"
    then have k: "\<exists>c'. stat (disk st) ?rf = Some (KFile c') \<and> hexdigest (md5 c') = hexdigest (md5 c)"
      and t21: "t2 = t1"
      and cnt: "file_identical_counter st' = file_identical_counter st + 1"
        "file_copied_counter st' = file_copied_counter st"
      unfolding same by blast+
    from k have "stat (disk st) ?rf \<noteq> None" by auto
    then have ex: "lookup (disk st) ?rf \<noteq> None" by (simp add: stat_None)
    have "stat (disk st) q \<noteq> None" if "prefix q (butlast ?rf)" for q
      using lookup_prefix_exists[OF ex, of q] that prefixeq_butlast[of ?rf]
      by (auto simp: stat_None)
    then have "stat t1 = stat (disk st)" unfolding s1 by auto
    then have 1: "\<forall>q. q \<noteq> log_file a \<longrightarrow> stat (disk st') q = stat (disk st) q"
      using lq t21 by simp
    have 2: "\<forall>q. prefix (replica_folder a) q \<longrightarrow> stat (disk st') q = stat (disk st) q"
    proof (intro allI impI)
      fix q assume "prefix (replica_folder a) q"
      with assms(3) have "q \<noteq> log_file a" by auto
      with 1 show "stat (disk st') q = stat (disk st) q" by simp
    qed
    show ?thesis
      by (rule exI[of _ c], rule conjI[OF c], rule disjI1) (intro conjI k cnt 1 2)
  next
    assume copy: "(stat t1 ?rf = None \<or>
         (\<exists>c'. stat t1 ?rf = Some (KFile c') \<and> hexdigest (md5 c') \<noteq> hexdigest (md5 c))) \<and>
        stat t2 = (stat t1)(?rf \<mapsto> KFile c) \<and>
        file_identical_counter st' = file_identical_counter st \<and>
        file_copied_counter st' = file_copied_counter st + 1"
    then have k: "stat (disk st) ?rf = None \<or>
         (\<exists>c'. stat (disk st) ?rf = Some (KFile c') \<and> hexdigest (md5 c') \<noteq> hexdigest (md5 c))"
      and s2: "stat t2 = (stat t1)(?rf \<mapsto> KFile c)"
      and cnt: "file_copied_counter st' = file_copied_counter st + 1"
        "file_identical_counter st' = file_identical_counter st"
      unfolding same by blast+
    have 1: "stat (disk st') ?rf = Some (KFile c)" using lq[of ?rf] lrf s2 by simp
    have b: "butlast ?rf \<noteq> ?rf" using np by auto
    have "stat t2 (butlast ?rf) = Some KDir" using s2 par b by simp
    with nl l have "stat (disk st') (butlast ?rf) = Some KDir" by auto
    then have 2: "stat (disk st') (os_path_dirname ?rf) = Some KDir"
      by (simp add: os_path_dirname_def)
    have 3: "\<forall>q. q \<noteq> log_file a \<longrightarrow> \<not> prefix q ?rf \<longrightarrow> stat (disk st') q = stat (disk st) q"
    proof (intro allI impI)
      fix q assume q: "q \<noteq> log_file a" "\<not> prefix q ?rf"
      have "q \<noteq> ?rf" using q(2) by auto
      moreover have "\<not> prefix q (butlast ?rf)"
        using q(2) prefixeq_butlast[of ?rf] prefix_order.trans by blast
      ultimately have "stat t2 q = stat (disk st) q" using s2 s1 by simp
      then show "stat (disk st') q = stat (disk st) q" using lq[OF q(1)] by simp
    qed
    show ?thesis
      by (rule exI[of _ c], rule conjI[OF c], rule disjI2) (intro conjI k cnt 1 2 3)
  qed
qed


theorem copy_file_copies_or_skips_witness:
  "\<not> isl (copy_file
       \<lparr>source_folder = [''s''], replica_folder = [''r''], log_file = [''log''],
         backup_interval = 60, timestamp = ''T''\<rparr>
       [''s'', ''a'']
       \<lparr>disk = Dir [(''s'', Dir [(''a'', File ''hi'')]), (''r'', Dir [(''a'', File ''hi'')])],
         file_copied_counter = 0, file_removed_counter = 0, file_identical_counter = 0,
         queue = []\<rparr>)
   \<and> [''s'', ''a''] \<in> set (scan (Dir [(''s'', Dir [(''a'', File ''hi'')]), (''r'', Dir [(''a'', File ''hi'')])]) [''s''])
   \<and> file_identical_counter (final (copy_file
       \<lparr>source_folder = [''s''], replica_folder = [''r''], log_file = [''log''],
         backup_interval = 60, timestamp = ''T''\<rparr>
       [''s'', ''a'']
       \<lparr>disk = Dir [(''s'', Dir [(''a'', File ''hi'')]), (''r'', Dir [(''a'', File ''hi'')])],
         file_copied_counter = 0, file_removed_counter = 0, file_identical_counter = 0,
         queue = []\<rparr>)) = 1
   \<and> stat (disk (final (copy_file
       \<lparr>source_folder = [''s''], replica_folder = [''r''], log_file = [''log''],
         backup_interval = 60, timestamp = ''T''\<rparr>
       [''s'', ''a'']
       \<lparr>disk = Dir [(''s'', Dir [(''a'', File ''hi'')]), (''r'', Dir [(''a'', File ''hi'')])],
         file_copied_counter = 0, file_removed_counter = 0, file_identical_counter = 0,
         queue = []\<rparr>))) [''r'', ''a''] = Some (KFile ''hi'')
   \<and> \<not> isl (copy_file
       \<lparr>source_folder = [''s''], replica_folder = [''r''], log_file = [''log''],
         backup_interval = 60, timestamp = ''T''\<rparr>
       [''s'', ''d'', ''a'']
       \<lparr>disk = Dir [(''s'', Dir [(''d'', Dir [(''a'', File ''hi'')])]), (''r'', Dir [])],
         file_copied_counter = 0, file_removed_counter = 0, file_identical_counter = 0,
         queue = []\<rparr>)
   \<and> [''s'', ''d'', ''a''] \<in> set (scan (Dir [(''s'', Dir [(''d'', Dir [(''a'', File ''hi'')])]), (''r'', Dir [])]) [''s''])
   \<and> file_copied_counter (final (copy_file
       \<lparr>source_folder = [''s''], replica_folder = [''r''], log_file = [''log''],
         backup_interval = 60, timestamp = ''T''\<rparr>
       [''s'', ''d'', ''a'']
       \<lparr>disk = Dir [(''s'', Dir [(''d'', Dir [(''a'', File ''hi'')])]), (''r'', Dir [])],
         file_copied_counter = 0, file_removed_counter = 0, file_identical_counter = 0,
         queue = []\<rparr>)) = 1
   \<and> stat (disk (final (copy_file
       \<lparr>source_folder = [''s''], replica_folder = [''r''], log_file = [''log''],
         backup_interval = 60, timestamp = ''T''\<rparr>
       [''s'', ''d'', ''a'']
       \<lparr>disk = Dir [(''s'', Dir [(''d'', Dir [(''a'', File ''hi'')])]), (''r'', Dir [])],
         file_copied_counter = 0, file_removed_counter = 0, file_identical_counter = 0,
         queue = []\<rparr>))) [''r'', ''d'', ''a''] = Some (KFile ''hi'')
   \<and> stat (disk (final (copy_file
       \<lparr>source_folder = [''s''], replica_folder = [''r''], log_file = [''log''],
         backup_interval = 60, timestamp = ''T''\<rparr>
       [''s'', ''d'', ''a'']
       \<lparr>disk = Dir [(''s'', Dir [(''d'', Dir [(''a'', File ''hi'')])]), (''r'', Dir [])],
         file_copied_counter = 0, file_removed_counter = 0, file_identical_counter = 0,
         queue = []\<rparr>))) [''r'', ''d''] = Some KDir
   \<and> \<not> isl (copy_file
       \<lparr>source_folder = [''s''], replica_folder = [''r''], log_file = [''log''],
         backup_interval = 60, timestamp = ''T''\<rparr>
       [''s'', ''a'']
       \<lparr>disk = Dir [(''s'', Dir [(''a'', File collision_a)]), (''r'', Dir [(''a'', File [])])],
         file_copied_counter = 0, file_removed_counter = 0, file_identical_counter = 0,
         queue = []\<rparr>)
   \<and> [''s'', ''a''] \<in> set (scan (Dir [(''s'', Dir [(''a'', File collision_a)]), (''r'', Dir [(''a'', File [])])]) [''s''])
   \<and> file_copied_counter (final (copy_file
       \<lparr>source_folder = [''s''], replica_folder = [''r''], log_file = [''log''],
         backup_interval = 60, timestamp = ''T''\<rparr>
       [''s'', ''a'']
       \<lparr>disk = Dir [(''s'', Dir [(''a'', File collision_a)]), (''r'', Dir [(''a'', File [])])],
         file_copied_counter = 0, file_removed_counter = 0, file_identical_counter = 0,
         queue = []\<rparr>)) = 1
   \<and> stat (disk (final (copy_file
       \<lparr>source_folder = [''s''], replica_folder = [''r''], log_file = [''log''],
         backup_interval = 60, timestamp = ''T''\<rparr>
       [''s'', ''a'']
       \<lparr>disk = Dir [(''s'', Dir [(''a'', File collision_a)]), (''r'', Dir [(''a'', File [])])],
         file_copied_counter = 0, file_removed_counter = 0, file_identical_counter = 0,
         queue = []\<rparr>))) [''r'', ''a''] = Some (KFile collision_a)"
proof -
  let ?a = "\<lparr>source_folder = [''s''], replica_folder = [''r''], log_file = [''log''],
         backup_interval = 60, timestamp = ''T''\<rparr>"
  let ?st1 = "\<lparr>disk = Dir [(''s'', Dir [(''a'', File ''hi'')]), (''r'', Dir [(''a'', File ''hi'')])],
         file_copied_counter = 0, file_removed_counter = 0, file_identical_counter = 0,
         queue = []\<rparr>"
  let ?st2 = "\<lparr>disk = Dir [(''s'', Dir [(''d'', Dir [(''a'', File ''hi'')])]), (''r'', Dir [])],
         file_copied_counter = 0, file_removed_counter = 0, file_identical_counter = 0,
         queue = []\<rparr>"
  let ?st3 = "\<lparr>disk = Dir [(''s'', Dir [(''a'', File collision_a)]), (''r'', Dir [(''a'', File [])])],
         file_copied_counter = 0, file_removed_counter = 0, file_identical_counter = 0,
         queue = []\<rparr>"
  have n1: "\<not> isl (copy_file ?a [''s'', ''a''] ?st1)" by (simp add: run_defs)
  have n2: "\<not> isl (copy_file ?a [''s'', ''d'', ''a''] ?st2)" by (simp add: run_defs)
  have n3: "\<not> isl (copy_file ?a [''s'', ''a''] ?st3)"
    by (simp add: run_defs md5_empty md5_collision_digest)
  have i1: "[''s'', ''a''] \<in> set (scan (disk ?st1) (source_folder ?a))"
    and i2: "[''s'', ''d'', ''a''] \<in> set (scan (disk ?st2) (source_folder ?a))"
    and i3: "[''s'', ''a''] \<in> set (scan (disk ?st3) (source_folder ?a))"
    by (simp_all add: run_defs)
  have l: "\<not> prefix (replica_folder ?a) (log_file ?a)" by simp
  note t1 = copy_file_copies_or_skips[OF Inr_final[OF n1] i1 l]
  note t2 = copy_file_copies_or_skips[OF Inr_final[OF n2] i2 l]
  note t3 = copy_file_copies_or_skips[OF Inr_final[OF n3] i3 l]
  have p: "os_path_relpath [''s'', ''a''] [''s''] = [''a'']"
    "os_path_relpath [''s'', ''d'', ''a''] [''s''] = [''d'', ''a'']"
    "os_path_dirname [''r'', ''d'', ''a''] = [''r'', ''d'']"
    by (simp_all add: os_path_relpath_def os_path_dirname_def)
  have c1: "stat (disk ?st1) [''r'', ''a''] = Some (KFile ''hi'')"
    "stat (disk ?st1) [''s'', ''a''] = Some (KFile ''hi'')"
    by (simp_all add: stat_def)
  have c2: "stat (disk ?st2) [''r'', ''d'', ''a''] = None"
    "stat (disk ?st2) [''s'', ''d'', ''a''] = Some (KFile ''hi'')"
    by (simp_all add: stat_def)
  have c3: "stat (disk ?st3) [''r'', ''a''] = Some (KFile [])"
    "stat (disk ?st3) [''s'', ''a''] = Some (KFile collision_a)"
    by (simp_all add: stat_def)
  from t1 have "file_identical_counter (final (copy_file ?a [''s'', ''a''] ?st1)) = 1
      \<and> (\<forall>q. prefix [''r''] q \<longrightarrow>
             stat (disk (final (copy_file ?a [''s'', ''a''] ?st1))) q = stat (disk ?st1) q)"
    using c1 by (auto simp: p)
  then have r1: "file_identical_counter (final (copy_file ?a [''s'', ''a''] ?st1)) = 1
      \<and> stat (disk (final (copy_file ?a [''s'', ''a''] ?st1))) [''r'', ''a''] = Some (KFile ''hi'')"
    using c1 by simp
  from t2 have r2: "file_copied_counter (final (copy_file ?a [''s'', ''d'', ''a''] ?st2)) = 1
      \<and> stat (disk (final (copy_file ?a [''s'', ''d'', ''a''] ?st2))) [''r'', ''d'', ''a'']
          = Some (KFile ''hi'')
      \<and> stat (disk (final (copy_file ?a [''s'', ''d'', ''a''] ?st2))) [''r'', ''d''] = Some KDir"
    using c2 by (auto simp: p)
  from t3 have r3: "file_copied_counter (final (copy_file ?a [''s'', ''a''] ?st3)) = 1
      \<and> stat (disk (final (copy_file ?a [''s'', ''a''] ?st3))) [''r'', ''a'']
          = Some (KFile collision_a)"
    using c3 by (auto simp: p md5_empty md5_collision_digest)
  show ?thesis using n1 n2 n3 i1 i2 i3 r1 r2 r3 by simp
qed

text \<open>
  C4 as stated fails in two ways. First, the replica folder holds a regular file where
  the source folder holds a directory: no file exists at the replica path of a file of the
  scan inside that directory, and the round raises from \<^verbatim>\<open>shutil.copy2\<close> without copying.
  Second, the log file lies under the replica folder: a round that counts its file as
  identical creates the log file there, a change of the replica tree.
\<close>

theorem copy_round_counterexample:
  "[''s'', ''d'', ''a''] \<in> set (scan (Dir [(''s'', Dir [(''d'', Dir [(''a'', File ''hi'')])]), (''r'', Dir [(''d'', File ''x'')])]) [''s''])
   \<and> stat (Dir [(''s'', Dir [(''d'', Dir [(''a'', File ''hi'')])]), (''r'', Dir [(''d'', File ''x'')])]) [''r'', ''d'', ''a''] = None
   \<and> copy_file
       \<lparr>source_folder = [''s''], replica_folder = [''r''], log_file = [''log''],
         backup_interval = 60, timestamp = ''T''\<rparr>
       [''s'', ''d'', ''a'']
       \<lparr>disk = Dir [(''s'', Dir [(''d'', Dir [(''a'', File ''hi'')])]), (''r'', Dir [(''d'', File ''x'')])],
         file_copied_counter = 0, file_removed_counter = 0, file_identical_counter = 0,
         queue = []\<rparr>
     = Inl (NotADirectoryError,
       \<lparr>disk = Dir [(''s'', Dir [(''d'', Dir [(''a'', File ''hi'')])]), (''r'', Dir [(''d'', File ''x'')])],
         file_copied_counter = 0, file_removed_counter = 0, file_identical_counter = 0,
         queue = []\<rparr>)
   \<and> \<not> isl (copy_file
       \<lparr>source_folder = [''s''], replica_folder = [''r''], log_file = [''r'', ''log''],
         backup_interval = 60, timestamp = ''T''\<rparr>
       [''s'', ''a'']
       \<lparr>disk = Dir [(''s'', Dir [(''a'', File ''hi'')]), (''r'', Dir [(''a'', File ''hi'')])],
         file_copied_counter = 0, file_removed_counter = 0, file_identical_counter = 0,
         queue = []\<rparr>)
   \<and> file_identical_counter (final (copy_file
       \<lparr>source_folder = [''s''], replica_folder = [''r''], log_file = [''r'', ''log''],
         backup_interval = 60, timestamp = ''T''\<rparr>
       [''s'', ''a'']
       \<lparr>disk = Dir [(''s'', Dir [(''a'', File ''hi'')]), (''r'', Dir [(''a'', File ''hi'')])],
         file_copied_counter = 0, file_removed_counter = 0, file_identical_counter = 0,
         queue = []\<rparr>)) = 1
   \<and> stat (Dir [(''s'', Dir [(''a'', File ''hi'')]), (''r'', Dir [(''a'', File ''hi'')])]) [''r'', ''log''] = None
   \<and> stat (disk (final (copy_file
       \<lparr>source_folder = [''s''], replica_folder = [''r''], log_file = [''r'', ''log''],
         backup_interval = 60, timestamp = ''T''\<rparr>
       [''s'', ''a'']
       \<lparr>disk = Dir [(''s'', Dir [(''a'', File ''hi'')]), (''r'', Dir [(''a'', File ''hi'')])],
         file_copied_counter = 0, file_removed_counter = 0, file_identical_counter = 0,
         queue = []\<rparr>))) [''r'', ''log''] \<noteq> None"
  by (simp add: run_defs final_def)

section \<open>A run that raises nothing\<close>

text \<open>A regular file in the replica after a round was there before, or is a copy.\<close>

lemma copy_file_origin:
  assumes sep: "separate a" and r: "r \<noteq> []"
    and ok: "copy_file a (source_folder a @ r) st = Inr st'"
    and f: "stat (disk st') (replica_folder a @ rel) = Some (KFile c')"
  shows "stat (disk st) (replica_folder a @ rel) = Some (KFile c') \<or>
         stat (disk st) (source_folder a @ rel) = Some (KFile c')"
proof (cases "rel = r")
  case False
  then show ?thesis using copy_file_sep(3)[OF sep r ok] f by (auto split: if_splits)
next
  case True
  let ?rf = "replica_folder a @ r"
  have rp: "os_path_relpath (source_folder a @ r) (source_folder a) \<noteq> []" using r by simp
  have rfeq: "?rf = replica_folder a @ os_path_relpath (source_folder a @ r) (source_folder a)"
    by simp
  from copy_file_Inr[OF ok rp rfeq] obtain c t1 t2 cl where
    c: "stat (disk st) (source_folder a @ r) = Some (KFile c)"
    and s1: "stat t1 = (\<lambda>q. if prefix q (butlast ?rf) \<and> stat (disk st) q = None then Some KDir
                     else stat (disk st) q)"
    and alt: "(\<exists>c'. stat t1 ?rf = Some (KFile c') \<and> hexdigest (md5 c') = hexdigest (md5 c)) \<and>
        t2 = t1 \<and>
        file_identical_counter st' = file_identical_counter st + 1 \<and>
        file_copied_counter st' = file_copied_counter st
      \<or>
      (stat t1 ?rf = None \<or>
         (\<exists>c'. stat t1 ?rf = Some (KFile c') \<and> hexdigest (md5 c') \<noteq> hexdigest (md5 c))) \<and>
        stat t2 = (stat t1)(?rf \<mapsto> KFile c) \<and>
        file_identical_counter st' = file_identical_counter st \<and>
        file_copied_counter st' = file_copied_counter st + 1"
    and l: "stat (disk st') = (if log_file a = [] then stat t2 else (stat t2)(log_file a \<mapsto> KFile cl))"
    by blast
  have l': "stat (disk st') ?rf = stat t2 ?rf"
    using l separate_facts(3)[OF sep, of r] by auto
  have "stat t1 ?rf = stat (disk st) ?rf"
    using s1 not_prefix_butlast[of ?rf] r by simp
  then show ?thesis using alt l' f c True by auto
qed

lemma copy_pass_origin:
  assumes sep: "separate a"
    and "\<forall>f \<in> set fs. \<exists>r. r \<noteq> [] \<and> f = source_folder a @ r"
    and "run_steps (copy_file a) fs st = Inr st'"
    and "stat (disk st') (replica_folder a @ rel) = Some (KFile c')"
  shows "stat (disk st) (replica_folder a @ rel) = Some (KFile c') \<or>
         stat (disk st) (source_folder a @ rel) = Some (KFile c')"
  using assms(2,3,4)
proof (induction fs arbitrary: st)
  case Nil
  then show ?case by simp
next
  case (Cons f fs)
  from Cons.prems(1) obtain r where r: "r \<noteq> []" "f = source_folder a @ r" by auto
  from Cons.prems(2) obtain st1 where s1: "copy_file a (source_folder a @ r) st = Inr st1"
    and rest: "run_steps (copy_file a) fs st1 = Inr st'"
    by (auto simp: r split: sum.splits)
  from Cons.prems(1) have "\<forall>f \<in> set fs. \<exists>r. r \<noteq> [] \<and> f = source_folder a @ r" by simp
  from Cons.IH[OF this rest Cons.prems(3)]
  have "stat (disk st1) (replica_folder a @ rel) = Some (KFile c') \<or>
         stat (disk st1) (source_folder a @ rel) = Some (KFile c')" .
  then show ?case
    using copy_file_origin[OF sep r(1) s1] copy_file_sep(1)[OF sep r(1) s1] by auto
qed

lemma scan_below:
  "wf_fs t \<Longrightarrow> \<forall>f \<in> set (scan t (source_folder a)). \<exists>r. r \<noteq> [] \<and> f = source_folder a @ r"
  by (auto simp: in_scan)

text \<open>A run, when the three places are apart and nothing is raised.\<close>

lemma sync_folders_Inr:
  assumes sep: "separate a" and w: "wf_fs (disk st)" and ok: "sync_folders a st = Inr st'"
  shows "\<forall>x. stat (disk st') (source_folder a @ x) = stat (disk st) (source_folder a @ x)"
    and "\<forall>r c. r \<noteq> [] \<longrightarrow> stat (disk st) (source_folder a @ r) = Some (KFile c) \<longrightarrow>
            synced a (disk st') r"
    and "orphan_free a (disk st')"
    and "\<forall>r c'. stat (disk st') (replica_folder a @ r) = Some (KFile c') \<longrightarrow>
            stat (disk st) (replica_folder a @ r) = Some (KFile c') \<or>
            stat (disk st) (source_folder a @ r) = Some (KFile c')"
    and "file_copied_counter st' + file_identical_counter st' =
           length (scan (disk st) (source_folder a))"
    and "file_removed_counter st' =
           length (filter (\<lambda>e. fst e \<and> gone a (disk st) (snd e))
                     (del_entries (os_walk (disk st) (replica_folder a) False)))"
    and "wf_fs (disk st')"
    and "\<exists>c. stat (disk st') (log_file a) = Some (KFile c)"
    and "queue st' = queue st @ [(backup_interval a, 1)]"
proof -
  let ?st0 = "st\<lparr>file_copied_counter := 0, file_removed_counter := 0, file_identical_counter := 0\<rparr>"
  have d0: "disk ?st0 = disk st" by simp
  from ok obtain st1 st2 st3 where
    del: "deletion_pass a (os_walk (disk ?st0) (replica_folder a) False) ?st0 = Inr st1"
    and cp: "run_steps (copy_file a) (scan (disk st) (source_folder a)) st1 = Inr st2"
    and lg: "write_log a (summary st2) st2 = Inr st3"
    and st': "st' = st3\<lparr>queue := queue st3 @ [(backup_interval a, 1)]\<rparr>"
    by (auto simp: sync_folders_def Let_def copy_pass_steps split: sum.splits)
  have w0: "wf_fs (disk ?st0)" using w by simp
  note D = deletion_pass_Inr[OF sep w0 del, unfolded d0]
  note C = copy_pass_Inr[OF sep scan_below[OF w] cp]
  note O = copy_pass_origin[OF sep scan_below[OF w] cp]
  note L = write_log_Inr[OF lg]
  note lne = separate_facts(1)[OF sep]
  from L(1) lne obtain cl where l3: "stat (disk st3) = (stat (disk st2))(log_file a \<mapsto> KFile cl)"
    by auto
  have src1: "stat (disk st1) (source_folder a @ x) = stat (disk st) (source_folder a @ x)" for x
  proof -
    have "\<not> strict_prefix (replica_folder a) (source_folder a @ x)"
      using separate_facts(6)[OF sep, of "[]" x] by (auto simp: strict_prefix_def)
    then show ?thesis using D(2) separate_facts(2)[OF sep, of x] by blast
  qed
  have src3: "stat (disk st3) (source_folder a @ x) = stat (disk st2) (source_folder a @ x)" for x
    using l3 separate_facts(2)[OF sep, of x] by auto
  have rep3: "stat (disk st3) (replica_folder a @ x) = stat (disk st2) (replica_folder a @ x)" for x
    using l3 separate_facts(3)[OF sep, of x] by auto
  have dst': "disk st' = disk st3" by (simp add: st')
  show "\<forall>x. stat (disk st') (source_folder a @ x) = stat (disk st) (source_folder a @ x)"
    using C src1 src3 by (simp add: dst')
  show "\<forall>r c. r \<noteq> [] \<longrightarrow> stat (disk st) (source_folder a @ r) = Some (KFile c) \<longrightarrow>
            synced a (disk st') r"
  proof (intro allI impI)
    fix r c assume r: "r \<noteq> []" and f: "stat (disk st) (source_folder a @ r) = Some (KFile c)"
    then have "source_folder a @ r \<in> set (scan (disk st) (source_folder a))"
      using in_scan[OF w] by (auto simp: stat_KFile)
    then have "synced a (disk st2) r" using C by blast
    then show "synced a (disk st') r" by (simp add: synced_def src3 rep3 dst')
  qed
  have "orphan_free a (disk st1)"
    unfolding orphan_free_def using D(1) src1 by (auto split: if_splits)
  then have "orphan_free a (disk st2)" using C by blast
  then show "orphan_free a (disk st')" by (simp add: orphan_free_def src3 rep3 dst')
  show "\<forall>r c'. stat (disk st') (replica_folder a @ r) = Some (KFile c') \<longrightarrow>
            stat (disk st) (replica_folder a @ r) = Some (KFile c') \<or>
            stat (disk st) (source_folder a @ r) = Some (KFile c')"
  proof (intro allI impI)
    fix r c' assume "stat (disk st') (replica_folder a @ r) = Some (KFile c')"
    then have "stat (disk st2) (replica_folder a @ r) = Some (KFile c')" by (simp add: dst' rep3)
    from O[OF this] have "stat (disk st1) (replica_folder a @ r) = Some (KFile c') \<or>
         stat (disk st1) (source_folder a @ r) = Some (KFile c')" .
    moreover have "stat (disk st1) (replica_folder a @ r) = Some (KFile c') \<Longrightarrow>
        stat (disk st) (replica_folder a @ r) = Some (KFile c')"
    proof (cases "r = []")
      case True
      assume "stat (disk st1) (replica_folder a @ r) = Some (KFile c')"
      then show ?thesis using D(2)[of "replica_folder a"] separate_facts(3)[OF sep, of "[]"] True
        by simp
    next
      case False
      assume "stat (disk st1) (replica_folder a @ r) = Some (KFile c')"
      then show ?thesis using D(1)[OF False] by (auto split: if_splits)
    qed
    ultimately show "stat (disk st) (replica_folder a @ r) = Some (KFile c') \<or>
            stat (disk st) (source_folder a @ r) = Some (KFile c')"
      using src1 by auto
  qed
  show "file_copied_counter st' + file_identical_counter st' =
           length (scan (disk st) (source_folder a))"
    using C D(4,5) L(2,4) by (simp add: st')
  show "file_removed_counter st' =
           length (filter (\<lambda>e. fst e \<and> gone a (disk st) (snd e))
                     (del_entries (os_walk (disk st) (replica_folder a) False)))"
    using C D(3) L(3) by (simp add: st' gone_def)
  show "wf_fs (disk st')" using C D(7) L(6) by (simp add: dst')
  show "\<exists>c. stat (disk st') (log_file a) = Some (KFile c)" using l3 by (simp add: dst')
  show "queue st' = queue st @ [(backup_interval a, 1)]"
    using C D(6) L(5) by (simp add: st')
qed

text \<open>
  C1, as amended. When the source folder, the replica folder and the log file are apart
  and a run raises nothing, then afterwards every regular file below the source folder
  has a regular file with the same MD5 digest at the same relative path below the
  replica folder, with the same bytes unless the replica held that file already before
  the run; and every path below the replica folder that holds anything holds something
  below the source folder too.
\<close>

theorem sync_folders_mirrors:
  assumes "separate a" and "wf_fs (disk st)" and "sync_folders a st = Inr st'"
  shows "(\<forall>rel c. rel \<noteq> [] \<longrightarrow> stat (disk st') (source_folder a @ rel) = Some (KFile c) \<longrightarrow>
            (\<exists>c'. stat (disk st') (replica_folder a @ rel) = Some (KFile c') \<and>
                  hexdigest (md5 c') = hexdigest (md5 c) \<and>
                  (c' = c \<or> stat (disk st) (replica_folder a @ rel) = Some (KFile c'))))
       \<and> (\<forall>rel. rel \<noteq> [] \<longrightarrow> stat (disk st') (replica_folder a @ rel) \<noteq> None \<longrightarrow>
            stat (disk st') (source_folder a @ rel) \<noteq> None)"
proof (intro conjI allI impI)
  note S = sync_folders_Inr[OF assms]
  fix rel c assume rel: "rel \<noteq> []" and f: "stat (disk st') (source_folder a @ rel) = Some (KFile c)"
  then have f0: "stat (disk st) (source_folder a @ rel) = Some (KFile c)" using S(1) by simp
  then have "synced a (disk st') rel" using S(2) rel by blast
  then obtain c' where c': "stat (disk st') (replica_folder a @ rel) = Some (KFile c')"
    "hexdigest (md5 c') = hexdigest (md5 c)" using f by (auto simp: synced_def)
  from S(4) c'(1) have "stat (disk st) (replica_folder a @ rel) = Some (KFile c') \<or>
      stat (disk st) (source_folder a @ rel) = Some (KFile c')" by blast
  with f0 have "c' = c \<or> stat (disk st) (replica_folder a @ rel) = Some (KFile c')"
    by auto
  then show "\<exists>c'. stat (disk st') (replica_folder a @ rel) = Some (KFile c') \<and>
                  hexdigest (md5 c') = hexdigest (md5 c) \<and>
                  (c' = c \<or> stat (disk st) (replica_folder a @ rel) = Some (KFile c'))"
    using c' by blast
next
  note S = sync_folders_Inr[OF assms]
  fix rel assume "rel \<noteq> []" "stat (disk st') (replica_folder a @ rel) \<noteq> None"
  then show "stat (disk st') (source_folder a @ rel) \<noteq> None"
    using S(3) by (simp add: orphan_free_def)
qed


theorem sync_folders_mirrors_witness:
  "separate \<lparr>source_folder = [''s''], replica_folder = [''r''], log_file = [''log''],
         backup_interval = 60, timestamp = ''T''\<rparr>
   \<and> wf_fs (Dir [(''s'', Dir [(''a'', File ''hi''), (''d'', Dir [(''b'', File ''v2'')])]),
                 (''r'', Dir [(''a'', File ''hi''), (''o'', File ''x'')])])
   \<and> \<not> isl (sync_folders
        \<lparr>source_folder = [''s''], replica_folder = [''r''], log_file = [''log''],
          backup_interval = 60, timestamp = ''T''\<rparr>
        \<lparr>disk = Dir [(''s'', Dir [(''a'', File ''hi''), (''d'', Dir [(''b'', File ''v2'')])]),
                     (''r'', Dir [(''a'', File ''hi''), (''o'', File ''x'')])],
          file_copied_counter = 0, file_removed_counter = 0, file_identical_counter = 0,
          queue = []\<rparr>)
   \<and> stat (disk (final (sync_folders
        \<lparr>source_folder = [''s''], replica_folder = [''r''], log_file = [''log''],
          backup_interval = 60, timestamp = ''T''\<rparr>
        \<lparr>disk = Dir [(''s'', Dir [(''a'', File ''hi''), (''d'', Dir [(''b'', File ''v2'')])]),
                     (''r'', Dir [(''a'', File ''hi''), (''o'', File ''x'')])],
          file_copied_counter = 0, file_removed_counter = 0, file_identical_counter = 0,
          queue = []\<rparr>))) [''r'', ''d'', ''b''] = Some (KFile ''v2'')
   \<and> stat (disk (final (sync_folders
        \<lparr>source_folder = [''s''], replica_folder = [''r''], log_file = [''log''],
          backup_interval = 60, timestamp = ''T''\<rparr>
        \<lparr>disk = Dir [(''s'', Dir [(''a'', File ''hi''), (''d'', Dir [(''b'', File ''v2'')])]),
                     (''r'', Dir [(''a'', File ''hi''), (''o'', File ''x'')])],
          file_copied_counter = 0, file_removed_counter = 0, file_identical_counter = 0,
          queue = []\<rparr>))) [''r'', ''o''] = None"
proof -
  let ?a = "\<lparr>source_folder = [''s''], replica_folder = [''r''], log_file = [''log''],
         backup_interval = 60, timestamp = ''T''\<rparr>"
  let ?t = "Dir [(''s'', Dir [(''a'', File ''hi''), (''d'', Dir [(''b'', File ''v2'')])]),
                 (''r'', Dir [(''a'', File ''hi''), (''o'', File ''x'')])]"
  let ?st = "\<lparr>disk = ?t, file_copied_counter = 0, file_removed_counter = 0,
          file_identical_counter = 0, queue = []\<rparr>"
  let ?r = "sync_folders ?a ?st"
  have sep: "separate ?a" by (simp add: separate_def parallel_def)
  have w: "wf_fs (disk ?st)" by simp
  have ok: "\<not> isl ?r" by (simp add: run_defs)
  note M = sync_folders_mirrors[OF sep w Inr_final[OF ok]]
  have src: "stat (disk (final ?r)) (source_folder ?a @ [''d'', ''b'']) = Some (KFile ''v2'')"
    "stat (disk (final ?r)) (source_folder ?a @ [''o'']) = None"
    "stat (disk ?st) (replica_folder ?a @ [''d'', ''b'']) = None"
    by (simp_all add: run_defs)
  from M src(1,3) have 1: "stat (disk (final ?r)) (replica_folder ?a @ [''d'', ''b'']) = Some (KFile ''v2'')"
    by (metis list.distinct(1) option.distinct(1))
  from M src(2) have 2: "stat (disk (final ?r)) (replica_folder ?a @ [''o'']) = None"
    by (metis list.distinct(1))
  show ?thesis using sep w ok 1 2 by simp
qed

text \<open>
  C1 as stated fails in two ways. First, with the three places apart: the source file
  and the replica file have different bytes and the same MD5 digest, so the run counts
  the file as identical and leaves the replica file as it is. Second, with the log file
  under the replica folder: the run completes and leaves its log there, at a path that
  holds nothing under the source folder.
\<close>

theorem replica_not_a_mirror_counterexample:
  "\<not> isl (sync_folders
        \<lparr>source_folder = [''s''], replica_folder = [''r''], log_file = [''log''],
          backup_interval = 60, timestamp = ''T''\<rparr>
        \<lparr>disk = Dir [(''s'', Dir [(''a'', File collision_a)]),
                     (''r'', Dir [(''a'', File collision_b)])],
          file_copied_counter = 0, file_removed_counter = 0, file_identical_counter = 0,
          queue = []\<rparr>)
   \<and> stat (disk (final (sync_folders
        \<lparr>source_folder = [''s''], replica_folder = [''r''], log_file = [''log''],
          backup_interval = 60, timestamp = ''T''\<rparr>
        \<lparr>disk = Dir [(''s'', Dir [(''a'', File collision_a)]),
                     (''r'', Dir [(''a'', File collision_b)])],
          file_copied_counter = 0, file_removed_counter = 0, file_identical_counter = 0,
          queue = []\<rparr>))) [''s'', ''a''] = Some (KFile collision_a)
   \<and> stat (disk (final (sync_folders
        \<lparr>source_folder = [''s''], replica_folder = [''r''], log_file = [''log''],
          backup_interval = 60, timestamp = ''T''\<rparr>
        \<lparr>disk = Dir [(''s'', Dir [(''a'', File collision_a)]),
                     (''r'', Dir [(''a'', File collision_b)])],
          file_copied_counter = 0, file_removed_counter = 0, file_identical_counter = 0,
          queue = []\<rparr>))) [''r'', ''a''] = Some (KFile collision_b)
   \<and> collision_a \<noteq> collision_b
   \<and> \<not> isl (sync_folders
        \<lparr>source_folder = [''s''], replica_folder = [''r''], log_file = [''r'', ''log''],
          backup_interval = 60, timestamp = ''T''\<rparr>
        \<lparr>disk = Dir [(''s'', Dir [(''a'', File ''hi'')]), (''r'', Dir [])],
          file_copied_counter = 0, file_removed_counter = 0, file_identical_counter = 0,
          queue = []\<rparr>)
   \<and> stat (disk (final (sync_folders
        \<lparr>source_folder = [''s''], replica_folder = [''r''], log_file = [''r'', ''log''],
          backup_interval = 60, timestamp = ''T''\<rparr>
        \<lparr>disk = Dir [(''s'', Dir [(''a'', File ''hi'')]), (''r'', Dir [])],
          file_copied_counter = 0, file_removed_counter = 0, file_identical_counter = 0,
          queue = []\<rparr>))) [''r'', ''log''] \<noteq> None
   \<and> stat (disk (final (sync_folders
        \<lparr>source_folder = [''s''], replica_folder = [''r''], log_file = [''r'', ''log''],
          backup_interval = 60, timestamp = ''T''\<rparr>
        \<lparr>disk = Dir [(''s'', Dir [(''a'', File ''hi'')]), (''r'', Dir [])],
          file_copied_counter = 0, file_removed_counter = 0, file_identical_counter = 0,
          queue = []\<rparr>))) [''s'', ''log''] = None"
  by (simp add: run_defs md5_collision collision_distinct)

section \<open>The counters\<close>

lemma mset_concat_map_cong:
  "(\<And>x. x \<in> set xs \<Longrightarrow> mset (f x) = mset (g x)) \<Longrightarrow>
   mset (concat (map f xs)) = mset (concat (map g xs))"
  by (induction xs) auto

lemma mset_walk: "mset (walk_topdown tp n) = mset (walk_bottomup tp n)"
proof (induction tp n rule: walk_topdown.induct)
  case (1 tp c)
  then show ?case by simp
next
  case (2 tp es)
  have "mset (concat (map (\<lambda>(x, n). walk_topdown (tp @ [x]) n) es)) =
        mset (concat (map (\<lambda>(x, n). walk_bottomup (tp @ [x]) n) es))"
    by (rule mset_concat_map_cong) (use "2.IH" in auto)
  then show ?case by simp
qed

lemma mset_concat_map_perm:
  "mset xs = mset ys \<Longrightarrow> mset (concat (map f xs)) = mset (concat (map f ys))"
proof -
  assume a: "mset xs = mset ys"
  have "mset (concat (map f zs)) = sum_mset (image_mset (\<lambda>z. mset (f z)) (mset zs))" for zs
    by (induction zs) auto
  then show ?thesis using a by simp
qed

lemma mset_del_entries: "mset ts = mset ts' \<Longrightarrow> mset (del_entries ts) = mset (del_entries ts')"
  unfolding del_entries_def by (rule mset_concat_map_perm)

lemma length_filter_mset: "mset xs = mset ys \<Longrightarrow> length (filter P xs) = length (filter P ys)"
  by (metis mset_filter size_mset)

lemma scan_entries: "scan t src = map snd (filter fst (del_entries (os_walk t src True)))"
proof -
  have "concat (map (\<lambda>(root, dirs, files). map (\<lambda>name. root @ [name]) files) ts) =
        map snd (filter fst (del_entries ts))" for ts :: "(path \<times> name list \<times> name list) list"
    by (induction ts) (auto simp: del_entries_def filter_map comp_def)
  then show ?thesis by (simp add: scan_def)
qed

lemma mset_os_walk: "mset (os_walk t tp True) = mset (os_walk t tp False)"
  by (simp add: os_walk_def mset_walk split: option.splits)

lemma orphan_count:
  "length (filter (\<lambda>e. fst e \<and> gone a t (snd e)) (del_entries (os_walk t (replica_folder a) False)))
   = length (filter (gone a t) (scan t (replica_folder a)))"
proof -
  let ?td = "del_entries (os_walk t (replica_folder a) True)"
  let ?bu = "del_entries (os_walk t (replica_folder a) False)"
  have "length (filter (gone a t) (scan t (replica_folder a))) =
        length (filter (\<lambda>e. fst e \<and> gone a t (snd e)) ?td)"
    by (simp add: scan_entries filter_map comp_def conj_commute)
  also have "\<dots> = length (filter (\<lambda>e. fst e \<and> gone a t (snd e)) ?bu)"
    by (rule length_filter_mset) (rule mset_del_entries, rule mset_os_walk)
  finally show ?thesis by simp
qed

lemma remove_dirs_counters:
  "remove_dirs a root names s = Inr s' \<Longrightarrow>
   file_removed_counter s' = file_removed_counter s \<and>
   file_copied_counter s' = file_copied_counter s \<and>
   file_identical_counter s' = file_identical_counter s"
proof (induction names arbitrary: s)
  case Nil
  then show ?case by simp
next
  case (Cons name names)
  from Cons.prems obtain s1 where 1: "del_step a (False, root @ [name]) s = Inr s1"
    and 2: "remove_dirs a root names s1 = Inr s'"
    by (auto simp: remove_dirs_steps split: sum.splits)
  from del_step_Inr(1)[OF 1] Cons.IH[OF 2] show ?case by auto
qed

text \<open>
  C3, as amended. When the source folder, the replica folder and the log file are apart
  and a run raises nothing, the counters at its end are these: copied and identical
  together count the regular files of the source scan; removed counts the regular
  files found below the replica folder before the run whose relative path holds
  nothing in the source. One round of the copy loop adds one to exactly one of copied
  and identical, and the loop over the directories of a triple changes no counter.
\<close>

theorem sync_folders_counters:
  assumes "separate a" and "wf_fs (disk st)" and "sync_folders a st = Inr st'"
  shows "file_copied_counter st' + file_identical_counter st' =
           length (scan (disk st) (source_folder a))
       \<and> file_removed_counter st' =
           length (filter (gone a (disk st)) (scan (disk st) (replica_folder a)))
       \<and> (remove_dirs a root names s = Inr s' \<longrightarrow>
            file_removed_counter s' = file_removed_counter s \<and>
            file_copied_counter s' = file_copied_counter s \<and>
            file_identical_counter s' = file_identical_counter s)
       \<and> (copy_file a f s = Inr s' \<and> os_path_relpath f (source_folder a) \<noteq> [] \<longrightarrow>
            file_removed_counter s' = file_removed_counter s \<and>
            (file_copied_counter s' = file_copied_counter s + 1 \<and>
               file_identical_counter s' = file_identical_counter s
             \<or> file_copied_counter s' = file_copied_counter s \<and>
               file_identical_counter s' = file_identical_counter s + 1))"
proof -
  note S = sync_folders_Inr[OF assms]
  have 1: "file_copied_counter st' + file_identical_counter st' =
           length (scan (disk st) (source_folder a))" by (rule S(5))
  have 2: "file_removed_counter st' =
           length (filter (gone a (disk st)) (scan (disk st) (replica_folder a)))"
    using S(6) orphan_count[of a "disk st"] by simp
  have 3: "file_removed_counter s' = file_removed_counter s \<and>
            file_copied_counter s' = file_copied_counter s \<and>
            file_identical_counter s' = file_identical_counter s"
    if "remove_dirs a root names s = Inr s'"
    using that by (rule remove_dirs_counters)
  have 4: "file_removed_counter s' = file_removed_counter s \<and>
            (file_copied_counter s' = file_copied_counter s + 1 \<and>
               file_identical_counter s' = file_identical_counter s
             \<or> file_copied_counter s' = file_copied_counter s \<and>
               file_identical_counter s' = file_identical_counter s + 1)"
    if "copy_file a f s = Inr s'" "os_path_relpath f (source_folder a) \<noteq> []"
    using copy_file_Inr[OF that refl] by blast
  show ?thesis using 1 2 3 4 by blast
qed


theorem sync_folders_counters_witness:
  "separate \<lparr>source_folder = [''s''], replica_folder = [''r''], log_file = [''log''],
         backup_interval = 60, timestamp = ''T''\<rparr>
   \<and> wf_fs (Dir [(''s'', Dir [(''a'', File ''hi''), (''d'', Dir [(''b'', File ''v2'')])]),
                 (''r'', Dir [(''a'', File ''hi''), (''o'', File ''x''), (''e'', Dir [])])])
   \<and> \<not> isl (sync_folders
        \<lparr>source_folder = [''s''], replica_folder = [''r''], log_file = [''log''],
          backup_interval = 60, timestamp = ''T''\<rparr>
        \<lparr>disk = Dir [(''s'', Dir [(''a'', File ''hi''), (''d'', Dir [(''b'', File ''v2'')])]),
                 (''r'', Dir [(''a'', File ''hi''), (''o'', File ''x''), (''e'', Dir [])])],
          file_copied_counter = 5, file_removed_counter = 5, file_identical_counter = 5,
          queue = []\<rparr>)
   \<and> file_copied_counter (final (sync_folders
        \<lparr>source_folder = [''s''], replica_folder = [''r''], log_file = [''log''],
          backup_interval = 60, timestamp = ''T''\<rparr>
        \<lparr>disk = Dir [(''s'', Dir [(''a'', File ''hi''), (''d'', Dir [(''b'', File ''v2'')])]),
                 (''r'', Dir [(''a'', File ''hi''), (''o'', File ''x''), (''e'', Dir [])])],
          file_copied_counter = 5, file_removed_counter = 5, file_identical_counter = 5,
          queue = []\<rparr>))
     + file_identical_counter (final (sync_folders
        \<lparr>source_folder = [''s''], replica_folder = [''r''], log_file = [''log''],
          backup_interval = 60, timestamp = ''T''\<rparr>
        \<lparr>disk = Dir [(''s'', Dir [(''a'', File ''hi''), (''d'', Dir [(''b'', File ''v2'')])]),
                 (''r'', Dir [(''a'', File ''hi''), (''o'', File ''x''), (''e'', Dir [])])],
          file_copied_counter = 5, file_removed_counter = 5, file_identical_counter = 5,
          queue = []\<rparr>)) = 2
   \<and> file_removed_counter (final (sync_folders
        \<lparr>source_folder = [''s''], replica_folder = [''r''], log_file = [''log''],
          backup_interval = 60, timestamp = ''T''\<rparr>
        \<lparr>disk = Dir [(''s'', Dir [(''a'', File ''hi''), (''d'', Dir [(''b'', File ''v2'')])]),
                 (''r'', Dir [(''a'', File ''hi''), (''o'', File ''x''), (''e'', Dir [])])],
          file_copied_counter = 5, file_removed_counter = 5, file_identical_counter = 5,
          queue = []\<rparr>)) = 1"
proof -
  let ?a = "\<lparr>source_folder = [''s''], replica_folder = [''r''], log_file = [''log''],
         backup_interval = 60, timestamp = ''T''\<rparr>"
  let ?t = "Dir [(''s'', Dir [(''a'', File ''hi''), (''d'', Dir [(''b'', File ''v2'')])]),
                 (''r'', Dir [(''a'', File ''hi''), (''o'', File ''x''), (''e'', Dir [])])]"
  let ?st = "\<lparr>disk = ?t, file_copied_counter = 5, file_removed_counter = 5,
          file_identical_counter = 5, queue = []\<rparr>"
  let ?r = "sync_folders ?a ?st"
  have sep: "separate ?a" by (simp add: separate_def parallel_def)
  have w: "wf_fs (disk ?st)" by simp
  have ok: "\<not> isl ?r" by (simp add: run_defs)
  have n: "length (scan (disk ?st) (source_folder ?a)) = 2"
    "length (filter (gone ?a (disk ?st)) (scan (disk ?st) (replica_folder ?a))) = 1"
    by (simp_all add: scan_def os_walk_def filenames_def dirnames_def gone_def stat_def
        os_path_relpath_def)
  show ?thesis
    using sync_folders_counters[OF sep w Inr_final[OF ok]] sep w ok unfolding n by simp
qed

text \<open>
  C3 as stated fails when the source folder lies under the replica folder. Here the
  replica holds one regular file, \<open>y\<close>, and the source holds a directory at that relative
  path. The pass removes the directory first, as an orphan of the replica, and then the
  file, whose source path now holds nothing: one file is counted as removed, and no
  regular file of the replica had a relative path absent from the source before the run.
\<close>

theorem removed_counter_nested_counterexample:
  "\<not> isl (sync_folders
        \<lparr>source_folder = [''r'', ''s''], replica_folder = [''r''], log_file = [''log''],
          backup_interval = 60, timestamp = ''T''\<rparr>
        \<lparr>disk = Dir [(''r'', Dir [(''s'', Dir [(''y'', Dir [])]), (''y'', File ''x'')])],
          file_copied_counter = 0, file_removed_counter = 0, file_identical_counter = 0,
          queue = []\<rparr>)
   \<and> file_removed_counter (final (sync_folders
        \<lparr>source_folder = [''r'', ''s''], replica_folder = [''r''], log_file = [''log''],
          backup_interval = 60, timestamp = ''T''\<rparr>
        \<lparr>disk = Dir [(''r'', Dir [(''s'', Dir [(''y'', Dir [])]), (''y'', File ''x'')])],
          file_copied_counter = 0, file_removed_counter = 0, file_identical_counter = 0,
          queue = []\<rparr>)) = 1
   \<and> scan (Dir [(''r'', Dir [(''s'', Dir [(''y'', Dir [])]), (''y'', File ''x'')])]) [''r'']
       = [[''r'', ''y'']]
   \<and> stat (Dir [(''r'', Dir [(''s'', Dir [(''y'', Dir [])]), (''y'', File ''x'')])])
        ([''r'', ''s''] @ [''y'']) = Some KDir
   \<and> length (filter
        (gone \<lparr>source_folder = [''r'', ''s''], replica_folder = [''r''], log_file = [''log''],
                backup_interval = 60, timestamp = ''T''\<rparr>
              (Dir [(''r'', Dir [(''s'', Dir [(''y'', Dir [])]), (''y'', File ''x'')])]))
        (scan (Dir [(''r'', Dir [(''s'', Dir [(''y'', Dir [])]), (''y'', File ''x'')])]) [''r''])) = 0"
  by (simp add: run_defs gone_def)

section \<open>A second run\<close>

lemma del_steps_noop:
  "\<forall>e \<in> set es. \<not> gone a (disk s) (snd e) \<Longrightarrow> run_steps (del_step a) es s = Inr s"
  by (induction es) (auto simp: del_step_def gone_def os_path_exists_def stat_None)

lemma write_log_succeeds:
  "stat (disk s) (log_file a) = Some (KFile c) \<Longrightarrow> \<exists>s'. write_log a msg s = Inr s'"
  using append_file_succeeds[of "disk s" "log_file a" c msg] by (auto simp: write_log_def)

lemma get_md5_file: "stat t p = Some (KFile c) \<Longrightarrow> get_md5 t p = Inr (hexdigest (md5 c))"
  by (simp add: get_md5_Inr)

lemma copy_file_synced_ok:
  assumes r: "r \<noteq> []" and s: "synced a (disk s) r"
    and l: "stat (disk s) (log_file a) = Some (KFile cl)"
  shows "\<exists>s'. copy_file a (source_folder a @ r) s = Inr s'"
proof -
  let ?rf = "replica_folder a @ r"
  from s obtain c c' where c: "stat (disk s) (source_folder a @ r) = Some (KFile c)"
    and c': "stat (disk s) ?rf = Some (KFile c')"
    and h: "hexdigest (md5 c') = hexdigest (md5 c)" by (auto simp: synced_def)
  have ex: "os_path_exists (disk s) ?rf" using c' by (simp add: os_path_exists_def stat_KFile)
  have "\<exists>es. lookup (disk s) (butlast ?rf) = Some (Dir es)"
    using lookup_parent[of "disk s" ?rf "File c'"] c' r by (simp add: stat_KFile)
  then have pd: "os_path_exists (disk s) (os_path_dirname ?rf)"
    by (auto simp: os_path_exists_def os_path_dirname_def)
  have ic: "identical_check (disk s) (source_folder a @ r) ?rf = Inr True"
    using ex h by (simp add: identical_check_def get_md5_file[OF c] get_md5_file[OF c'])
  let ?s1 = "s\<lparr>disk := disk s, file_identical_counter := file_identical_counter s + 1\<rparr>"
  have "stat (disk ?s1) (log_file a) = Some (KFile cl)" using l by simp
  from write_log_succeeds[OF this] obtain s' where
    "write_log a (log_line a (source_folder a @ r)
        '' already exists in replica folder and is identical'') ?s1 = Inr s'" by blast
  then have "copy_file a (source_folder a @ r) s = Inr s'"
    unfolding copy_file_def Let_def relpath_append using pd ic by simp
  then show ?thesis by blast
qed

text \<open>The copy pass over files that are in the replica already.\<close>

lemma copy_pass_synced:
  assumes sep: "separate a"
  shows "\<forall>f \<in> set fs. \<exists>r. r \<noteq> [] \<and> f = source_folder a @ r \<and> synced a (disk s) r \<Longrightarrow>
     \<exists>c. stat (disk s) (log_file a) = Some (KFile c) \<Longrightarrow>
     \<exists>s'. run_steps (copy_file a) fs s = Inr s' \<and>
          file_identical_counter s' = file_identical_counter s + length fs \<and>
          file_copied_counter s' = file_copied_counter s \<and>
          file_removed_counter s' = file_removed_counter s \<and>
          queue s' = queue s \<and>
          (\<forall>q. q \<noteq> log_file a \<longrightarrow> stat (disk s') q = stat (disk s) q) \<and>
          (\<exists>c. stat (disk s') (log_file a) = Some (KFile c))"
proof (induction fs arbitrary: s)
  case Nil
  then show ?case by simp
next
  case (Cons f fs)
  from Cons.prems(1) obtain r where r: "r \<noteq> []" "f = source_folder a @ r" "synced a (disk s) r"
    by auto
  from Cons.prems(2) obtain cl where cl: "stat (disk s) (log_file a) = Some (KFile cl)" by blast
  from copy_file_synced_ok[OF r(1,3) cl] obtain s1 where
    s1: "copy_file a (source_folder a @ r) s = Inr s1" by blast
  note c = copy_file_sep(4,6,7,9)[OF sep r(1) s1]
  from c(4)[OF r(3)] have id: "file_identical_counter s1 = file_identical_counter s + 1"
    "file_copied_counter s1 = file_copied_counter s"
    and same: "\<forall>q. q \<noteq> log_file a \<longrightarrow> stat (disk s1) q = stat (disk s) q" by auto
  have keep: "synced a (disk s1) r'" if "synced a (disk s) r'" for r'
    using that same separate_facts(2,3)[OF sep] by (auto simp: synced_def)
  have "\<forall>f \<in> set fs. \<exists>r. r \<noteq> [] \<and> f = source_folder a @ r \<and> synced a (disk s1) r"
    using Cons.prems(1) keep by auto
  from Cons.IH[OF this c(1)] obtain s' where
    s': "run_steps (copy_file a) fs s1 = Inr s'"
      "file_identical_counter s' = file_identical_counter s1 + length fs"
      "file_copied_counter s' = file_copied_counter s1"
      "file_removed_counter s' = file_removed_counter s1"
      "queue s' = queue s1"
      "\<forall>q. q \<noteq> log_file a \<longrightarrow> stat (disk s') q = stat (disk s1) q"
      "\<exists>c. stat (disk s') (log_file a) = Some (KFile c)"
    by blast
  have "run_steps (copy_file a) (f # fs) s = Inr s'" using s1 s'(1) by (simp add: r(2))
  then show ?case using s'(2-7) id same c(2,3) by auto
qed

text \<open>A run on a replica that is in step with the source.\<close>

lemma sync_folders_in_step:
  assumes sep: "separate a" and w: "wf_fs (disk s)"
    and o: "orphan_free a (disk s)"
    and y: "\<forall>r c. r \<noteq> [] \<longrightarrow> stat (disk s) (source_folder a @ r) = Some (KFile c) \<longrightarrow>
              synced a (disk s) r"
    and l: "\<exists>c. stat (disk s) (log_file a) = Some (KFile c)"
  shows "\<exists>s'. sync_folders a s = Inr s' \<and>
          file_copied_counter s' = 0 \<and> file_removed_counter s' = 0 \<and>
          file_identical_counter s' = length (scan (disk s) (source_folder a)) \<and>
          (\<forall>q. q \<noteq> log_file a \<longrightarrow> stat (disk s') q = stat (disk s) q)"
proof -
  let ?s0 = "s\<lparr>file_copied_counter := 0, file_removed_counter := 0, file_identical_counter := 0\<rparr>"
  let ?es = "del_entries (os_walk (disk s) (replica_folder a) False)"
  let ?fs = "scan (disk s) (source_folder a)"
  have d0: "disk ?s0 = disk s" by simp
  have "\<not> gone a (disk ?s0) (snd e)" if "e \<in> set ?es" for e
  proof -
    obtain k q where e: "e = (k, q)" by (cases e) auto
    from that os_walk_entries[OF w, of k q "replica_folder a"] obtain rel where
      rel: "rel \<noteq> []" "q = replica_folder a @ rel" "stat (disk s) q \<noteq> None"
      by (auto simp: e stat_None)
    then show ?thesis using o by (simp add: e orphan_free_def)
  qed
  then have del: "run_steps (del_step a) ?es ?s0 = Inr ?s0" by (intro del_steps_noop) blast
  have "\<forall>f \<in> set ?fs. \<exists>r. r \<noteq> [] \<and> f = source_folder a @ r \<and> synced a (disk ?s0) r"
    using y in_scan[OF w] by (auto simp: stat_KFile)
  from copy_pass_synced[OF sep this] l obtain s2 where
    s2: "run_steps (copy_file a) ?fs ?s0 = Inr s2"
      "file_identical_counter s2 = length ?fs"
      "file_copied_counter s2 = 0"
      "file_removed_counter s2 = 0"
      "\<forall>q. q \<noteq> log_file a \<longrightarrow> stat (disk s2) q = stat (disk s) q"
      "\<exists>c. stat (disk s2) (log_file a) = Some (KFile c)"
    by auto
  from s2(6) write_log_succeeds obtain s3 where s3: "write_log a (summary s2) s2 = Inr s3"
    by blast
  note L = write_log_Inr[OF s3]
  from L(1) have same3: "\<forall>q. q \<noteq> log_file a \<longrightarrow> stat (disk s3) q = stat (disk s2) q"
    by (auto split: if_splits)
  let ?s' = "s3\<lparr>queue := queue s3 @ [(backup_interval a, 1)]\<rparr>"
  have "sync_folders a s = Inr ?s'"
    using del s2(1) s3 by (simp add: sync_folders_def Let_def deletion_pass_steps copy_pass_steps)
  moreover have "file_copied_counter ?s' = 0" "file_removed_counter ?s' = 0"
    "file_identical_counter ?s' = length ?fs"
    using L(2,3,4) s2(2,3,4) by simp_all
  moreover have "\<forall>q. q \<noteq> log_file a \<longrightarrow> stat (disk ?s') q = stat (disk s) q"
    using same3 s2(5) by simp
  ultimately show ?thesis by blast
qed

text \<open>
  C2, as amended. When the source folder, the replica folder and the log file are apart
  and a run raises nothing, a second run that starts where the first one ended raises
  nothing either, copies nothing and removes nothing, counts every file of the source
  scan as identical, and changes nothing in the filesystem but the log file.
\<close>

theorem second_run_copies_and_removes_nothing:
  assumes "separate a" and "wf_fs (disk st)" and "sync_folders a st = Inr st1"
  shows "\<exists>st2. sync_folders a st1 = Inr st2 \<and>
           file_copied_counter st2 = 0 \<and> file_removed_counter st2 = 0 \<and>
           file_identical_counter st2 = length (scan (disk st1) (source_folder a)) \<and>
           (\<forall>q. q \<noteq> log_file a \<longrightarrow> stat (disk st2) q = stat (disk st1) q)"
proof -
  note S = sync_folders_Inr[OF assms]
  have y: "\<forall>r c. r \<noteq> [] \<longrightarrow> stat (disk st1) (source_folder a @ r) = Some (KFile c) \<longrightarrow>
              synced a (disk st1) r"
    using S(1,2) by simp
  show ?thesis by (rule sync_folders_in_step[OF assms(1) S(7) S(3) y S(8)])
qed


theorem second_run_copies_and_removes_nothing_witness:
  "separate \<lparr>source_folder = [''s''], replica_folder = [''r''], log_file = [''log''],
          backup_interval = 60, timestamp = ''T''\<rparr>
   \<and> wf_fs (Dir [(''s'', Dir [(''a'', File ''hi'')]), (''r'', Dir [(''o'', File ''x'')])])
   \<and> \<not> isl (sync_folders
        \<lparr>source_folder = [''s''], replica_folder = [''r''], log_file = [''log''],
          backup_interval = 60, timestamp = ''T''\<rparr>
        \<lparr>disk = Dir [(''s'', Dir [(''a'', File ''hi'')]), (''r'', Dir [(''o'', File ''x'')])],
          file_copied_counter = 0, file_removed_counter = 0, file_identical_counter = 0,
          queue = []\<rparr>)
   \<and> \<not> isl (sync_folders
        \<lparr>source_folder = [''s''], replica_folder = [''r''], log_file = [''log''],
          backup_interval = 60, timestamp = ''T''\<rparr>
        (final (sync_folders
        \<lparr>source_folder = [''s''], replica_folder = [''r''], log_file = [''log''],
          backup_interval = 60, timestamp = ''T''\<rparr>
        \<lparr>disk = Dir [(''s'', Dir [(''a'', File ''hi'')]), (''r'', Dir [(''o'', File ''x'')])],
          file_copied_counter = 0, file_removed_counter = 0, file_identical_counter = 0,
          queue = []\<rparr>)))
   \<and> file_copied_counter (final (sync_folders
        \<lparr>source_folder = [''s''], replica_folder = [''r''], log_file = [''log''],
          backup_interval = 60, timestamp = ''T''\<rparr>
        (final (sync_folders
        \<lparr>source_folder = [''s''], replica_folder = [''r''], log_file = [''log''],
          backup_interval = 60, timestamp = ''T''\<rparr>
        \<lparr>disk = Dir [(''s'', Dir [(''a'', File ''hi'')]), (''r'', Dir [(''o'', File ''x'')])],
          file_copied_counter = 0, file_removed_counter = 0, file_identical_counter = 0,
          queue = []\<rparr>)))) = 0
   \<and> file_removed_counter (final (sync_folders
        \<lparr>source_folder = [''s''], replica_folder = [''r''], log_file = [''log''],
          backup_interval = 60, timestamp = ''T''\<rparr>
        (final (sync_folders
        \<lparr>source_folder = [''s''], replica_folder = [''r''], log_file = [''log''],
          backup_interval = 60, timestamp = ''T''\<rparr>
        \<lparr>disk = Dir [(''s'', Dir [(''a'', File ''hi'')]), (''r'', Dir [(''o'', File ''x'')])],
          file_copied_counter = 0, file_removed_counter = 0, file_identical_counter = 0,
          queue = []\<rparr>)))) = 0
   \<and> file_identical_counter (final (sync_folders
        \<lparr>source_folder = [''s''], replica_folder = [''r''], log_file = [''log''],
          backup_interval = 60, timestamp = ''T''\<rparr>
        (final (sync_folders
        \<lparr>source_folder = [''s''], replica_folder = [''r''], log_file = [''log''],
          backup_interval = 60, timestamp = ''T''\<rparr>
        \<lparr>disk = Dir [(''s'', Dir [(''a'', File ''hi'')]), (''r'', Dir [(''o'', File ''x'')])],
          file_copied_counter = 0, file_removed_counter = 0, file_identical_counter = 0,
          queue = []\<rparr>)))) = 1"
proof -
  let ?a = "\<lparr>source_folder = [''s''], replica_folder = [''r''], log_file = [''log''],
          backup_interval = 60, timestamp = ''T''\<rparr>"
  let ?st = "\<lparr>disk = Dir [(''s'', Dir [(''a'', File ''hi'')]), (''r'', Dir [(''o'', File ''x'')])],
          file_copied_counter = 0, file_removed_counter = 0, file_identical_counter = 0,
          queue = []\<rparr>"
  let ?st1 = "final (sync_folders ?a ?st)"
  have sep: "separate ?a" by (simp add: separate_def parallel_def)
  have w: "wf_fs (disk ?st)" by simp
  have ok: "\<not> isl (sync_folders ?a ?st)" by (simp add: run_defs)
  have n: "length (scan (disk ?st1) (source_folder ?a)) = 1" by (simp add: run_defs)
  from second_run_copies_and_removes_nothing[OF sep w Inr_final[OF ok]] obtain st2 where
    st2: "sync_folders ?a ?st1 = Inr st2" "file_copied_counter st2 = 0"
      "file_removed_counter st2 = 0"
      "file_identical_counter st2 = length (scan (disk ?st1) (source_folder ?a))"
    by blast
  have f: "final (sync_folders ?a ?st1) = st2" "\<not> isl (sync_folders ?a ?st1)"
    by (simp_all add: st2(1))
  show ?thesis using sep w ok f(2) st2(2,3,4) unfolding f(1) n by simp
qed

text \<open>
  C2 as stated fails when the log file lies under the replica folder: the first run
  leaves its log in the replica, and the second run removes it as an orphan.
\<close>

theorem second_run_removes_log_counterexample:
  "\<not> isl (sync_folders
        \<lparr>source_folder = [''s''], replica_folder = [''r''], log_file = [''r'', ''log''],
          backup_interval = 60, timestamp = ''T''\<rparr>
        \<lparr>disk = Dir [(''s'', Dir [(''a'', File ''hi'')]), (''r'', Dir [])],
          file_copied_counter = 0, file_removed_counter = 0, file_identical_counter = 0,
          queue = []\<rparr>)
   \<and> \<not> isl (sync_folders
        \<lparr>source_folder = [''s''], replica_folder = [''r''], log_file = [''r'', ''log''],
          backup_interval = 60, timestamp = ''T''\<rparr>
        (final (sync_folders
        \<lparr>source_folder = [''s''], replica_folder = [''r''], log_file = [''r'', ''log''],
          backup_interval = 60, timestamp = ''T''\<rparr>
        \<lparr>disk = Dir [(''s'', Dir [(''a'', File ''hi'')]), (''r'', Dir [])],
          file_copied_counter = 0, file_removed_counter = 0, file_identical_counter = 0,
          queue = []\<rparr>)))
   \<and> file_removed_counter (final (sync_folders
        \<lparr>source_folder = [''s''], replica_folder = [''r''], log_file = [''r'', ''log''],
          backup_interval = 60, timestamp = ''T''\<rparr>
        (final (sync_folders
        \<lparr>source_folder = [''s''], replica_folder = [''r''], log_file = [''r'', ''log''],
          backup_interval = 60, timestamp = ''T''\<rparr>
        \<lparr>disk = Dir [(''s'', Dir [(''a'', File ''hi'')]), (''r'', Dir [])],
          file_copied_counter = 0, file_removed_counter = 0, file_identical_counter = 0,
          queue = []\<rparr>)))) = 1"
  by (simp add: run_defs)

section \<open>Errors\<close>

lemma copy_pass_append:
  "copy_pass a (xs @ ys) s =
     (case copy_pass a xs s of Inl r \<Rightarrow> Inl r | Inr s' \<Rightarrow> copy_pass a ys s')"
  by (simp add: copy_pass_steps run_steps_append split: sum.splits)

lemma deletion_pass_append:
  "deletion_pass a (xs @ ys) s =
     (case deletion_pass a xs s of Inl r \<Rightarrow> Inl r | Inr s' \<Rightarrow> deletion_pass a ys s')"
  by (simp add: deletion_pass_steps del_entries_append run_steps_append split: sum.splits)

text \<open>
  C6, as amended. There is no handler in \<^verbatim>\<open>sync_folders\<close>: the first operation that
  raises ends the run. When \<^verbatim>\<open>os.remove\<close> or \<^verbatim>\<open>os.rmdir\<close> raises, the loop over the names
  ends with that error and the state as it is; when a round of the copy loop raises, the
  copy pass ends with its error, whatever files follow; an error of the deletion pass or
  of the copy pass is the result of the run, with the state reached at the error: no
  further action, no summary, no next run in the scheduler.
\<close>

theorem first_error_ends_run:
  "(\<not> os_path_exists (disk s)
        (source_folder a @ os_path_relpath (root @ [name]) (replica_folder a)) \<and>
      os_remove (disk s) (root @ [name]) = Inl e \<longrightarrow>
      remove_files a root (name # names) s = Inl (e, s))
   \<and> (\<not> os_path_exists (disk s)
        (source_folder a @ os_path_relpath (root @ [name]) (replica_folder a)) \<and>
      os_rmdir (disk s) (root @ [name]) = Inl e \<longrightarrow>
      remove_dirs a root (name # names) s = Inl (e, s))
   \<and> (deletion_pass a pre s = Inr s' \<and> remove_files a root files s' = Inl r \<longrightarrow>
      deletion_pass a (pre @ (root, dirs, files) # ts) s = Inl r)
   \<and> (deletion_pass a pre s = Inr s' \<and> remove_files a root files s' = Inr s'' \<and>
      remove_dirs a root dirs s'' = Inl r \<longrightarrow>
      deletion_pass a (pre @ (root, dirs, files) # ts) s = Inl r)
   \<and> (copy_pass a before s = Inr s' \<and> copy_file a f s' = Inl r \<longrightarrow>
      copy_pass a (before @ f # fs) s = Inl r)
   \<and> (deletion_pass a (os_walk (disk st) (replica_folder a) False)
        (st\<lparr>file_copied_counter := 0, file_removed_counter := 0,
             file_identical_counter := 0\<rparr>) = Inl r \<longrightarrow>
      sync_folders a st = Inl r)
   \<and> (deletion_pass a (os_walk (disk st) (replica_folder a) False)
        (st\<lparr>file_copied_counter := 0, file_removed_counter := 0,
             file_identical_counter := 0\<rparr>) = Inr st' \<and>
      copy_pass a (scan (disk st) (source_folder a)) st' = Inl r \<longrightarrow>
      sync_folders a st = Inl r)"
  by (simp add: Let_def deletion_pass_append copy_pass_append sync_folders_def)


theorem first_error_ends_run_witness:
  "remove_files
      \<lparr>source_folder = [''s''], replica_folder = [''r''], log_file = [''log''],
        backup_interval = 60, timestamp = ''T''\<rparr> [''r''] [''gone'', ''d'']
      \<lparr>disk = Dir [(''s'', Dir [(''d'', Dir [(''a'', File ''1'')]), (''e'', Dir [(''b'', File ''2'')])]),
             (''r'', Dir [(''d'', File ''x'')])],
        file_copied_counter = 0, file_removed_counter = 0, file_identical_counter = 0,
        queue = []\<rparr>
    = Inl (FileNotFoundError,
      \<lparr>disk = Dir [(''s'', Dir [(''d'', Dir [(''a'', File ''1'')]), (''e'', Dir [(''b'', File ''2'')])]),
             (''r'', Dir [(''d'', File ''x'')])],
        file_copied_counter = 0, file_removed_counter = 0, file_identical_counter = 0,
        queue = []\<rparr>)
   \<and> remove_dirs
      \<lparr>source_folder = [''s''], replica_folder = [''r''], log_file = [''r'', ''e'', ''log''],
        backup_interval = 60, timestamp = ''T''\<rparr> [''r''] [''e'']
      \<lparr>disk = Dir [(''s'', Dir []), (''r'', Dir [(''e'', Dir [(''x'', File ''1'')])])],
        file_copied_counter = 0, file_removed_counter = 0, file_identical_counter = 0,
        queue = []\<rparr>
    = Inl (DirectoryNotEmpty,
      \<lparr>disk = Dir [(''s'', Dir []), (''r'', Dir [(''e'', Dir [(''x'', File ''1'')])])],
        file_copied_counter = 0, file_removed_counter = 0, file_identical_counter = 0,
        queue = []\<rparr>)
   \<and> copy_pass
      \<lparr>source_folder = [''s''], replica_folder = [''r''], log_file = [''log''],
        backup_interval = 60, timestamp = ''T''\<rparr> [[''s'', ''d'', ''a''], [''s'', ''e'', ''b'']]
      \<lparr>disk = Dir [(''s'', Dir [(''d'', Dir [(''a'', File ''1'')]), (''e'', Dir [(''b'', File ''2'')])]),
             (''r'', Dir [(''d'', File ''x'')])],
        file_copied_counter = 0, file_removed_counter = 0, file_identical_counter = 0,
        queue = []\<rparr>
    = Inl (NotADirectoryError,
      \<lparr>disk = Dir [(''s'', Dir [(''d'', Dir [(''a'', File ''1'')]), (''e'', Dir [(''b'', File ''2'')])]),
             (''r'', Dir [(''d'', File ''x'')])],
        file_copied_counter = 0, file_removed_counter = 0, file_identical_counter = 0,
        queue = []\<rparr>)
   \<and> sync_folders
      \<lparr>source_folder = [''s''], replica_folder = [''r''], log_file = [''log''],
        backup_interval = 60, timestamp = ''T''\<rparr>
      \<lparr>disk = Dir [(''s'', Dir [(''d'', Dir [(''a'', File ''1'')]), (''e'', Dir [(''b'', File ''2'')])]),
             (''r'', Dir [(''d'', File ''x'')])],
        file_copied_counter = 0, file_removed_counter = 0, file_identical_counter = 0,
        queue = []\<rparr>
    = Inl (NotADirectoryError,
      \<lparr>disk = Dir [(''s'', Dir [(''d'', Dir [(''a'', File ''1'')]), (''e'', Dir [(''b'', File ''2'')])]),
             (''r'', Dir [(''d'', File ''x'')])],
        file_copied_counter = 0, file_removed_counter = 0, file_identical_counter = 0,
        queue = []\<rparr>)
   \<and> isl (deletion_pass
      \<lparr>source_folder = [''s''], replica_folder = [''r''], log_file = [''r'', ''e'', ''log''],
        backup_interval = 60, timestamp = ''T''\<rparr>
      (os_walk (Dir [(''s'', Dir []), (''r'', Dir [(''e'', Dir [(''x'', File ''1'')])])]) [''r''] False)
      \<lparr>disk = Dir [(''s'', Dir []), (''r'', Dir [(''e'', Dir [(''x'', File ''1'')])])],
        file_copied_counter = 0, file_removed_counter = 0, file_identical_counter = 0,
        queue = []\<rparr>)
   \<and> sync_folders
      \<lparr>source_folder = [''s''], replica_folder = [''r''], log_file = [''r'', ''e'', ''log''],
        backup_interval = 60, timestamp = ''T''\<rparr>
      \<lparr>disk = Dir [(''s'', Dir []), (''r'', Dir [(''e'', Dir [(''x'', File ''1'')])])],
        file_copied_counter = 0, file_removed_counter = 0, file_identical_counter = 0,
        queue = []\<rparr>
    = deletion_pass
      \<lparr>source_folder = [''s''], replica_folder = [''r''], log_file = [''r'', ''e'', ''log''],
        backup_interval = 60, timestamp = ''T''\<rparr>
      (os_walk (Dir [(''s'', Dir []), (''r'', Dir [(''e'', Dir [(''x'', File ''1'')])])]) [''r''] False)
      \<lparr>disk = Dir [(''s'', Dir []), (''r'', Dir [(''e'', Dir [(''x'', File ''1'')])])],
        file_copied_counter = 0, file_removed_counter = 0, file_identical_counter = 0,
        queue = []\<rparr>"
proof -
  let ?a = "\<lparr>source_folder = [''s''], replica_folder = [''r''], log_file = [''log''],
        backup_interval = 60, timestamp = ''T''\<rparr>"
  let ?st = "\<lparr>disk = Dir [(''s'', Dir [(''d'', Dir [(''a'', File ''1'')]), (''e'', Dir [(''b'', File ''2'')])]),
             (''r'', Dir [(''d'', File ''x'')])],
        file_copied_counter = 0, file_removed_counter = 0, file_identical_counter = 0,
        queue = []\<rparr>"
  let ?a3 = "\<lparr>source_folder = [''s''], replica_folder = [''r''], log_file = [''r'', ''e'', ''log''],
        backup_interval = 60, timestamp = ''T''\<rparr>"
  let ?st3 = "\<lparr>disk = Dir [(''s'', Dir []), (''r'', Dir [(''e'', Dir [(''x'', File ''1'')])])],
        file_copied_counter = 0, file_removed_counter = 0, file_identical_counter = 0,
        queue = []\<rparr>"
  let ?d3 = "deletion_pass ?a3 (os_walk (disk ?st3) (replica_folder ?a3) False)
      (?st3\<lparr>file_copied_counter := 0, file_removed_counter := 0, file_identical_counter := 0\<rparr>)"
  have h1: "\<not> os_path_exists (disk ?st)
        (source_folder ?a @ os_path_relpath ([''r''] @ [''gone'']) (replica_folder ?a)) \<and>
      os_remove (disk ?st) ([''r''] @ [''gone'']) = Inl FileNotFoundError"
    by (simp add: os_path_exists_def os_path_relpath_def os_remove_def)
  have h2: "\<not> os_path_exists (disk ?st3)
        (source_folder ?a3 @ os_path_relpath ([''r''] @ [''e'']) (replica_folder ?a3)) \<and>
      os_rmdir (disk ?st3) ([''r''] @ [''e'']) = Inl DirectoryNotEmpty"
    by (simp add: os_path_exists_def os_path_relpath_def os_rmdir_def)
  have h5: "copy_pass ?a [] ?st = Inr ?st \<and>
      copy_file ?a [''s'', ''d'', ''a''] ?st = Inl (NotADirectoryError, ?st)"
    by (simp add: run_defs)
  have h7: "deletion_pass ?a (os_walk (disk ?st) (replica_folder ?a) False)
        (?st\<lparr>file_copied_counter := 0, file_removed_counter := 0,
             file_identical_counter := 0\<rparr>) = Inr ?st \<and>
      copy_pass ?a (scan (disk ?st) (source_folder ?a)) ?st = Inl (NotADirectoryError, ?st)"
    by (simp add: run_defs)
  have i6: "isl ?d3" by (simp add: run_defs)
  then have h6: "?d3 = Inl (projl ?d3)" by simp
  note T1 = first_error_ends_run[where s = ?st and a = ?a and root = "[''r'']" and name = "''gone''"
      and e = FileNotFoundError and names = "[''d'']"]
  note T2 = first_error_ends_run[where s = ?st3 and a = ?a3 and root = "[''r'']" and name = "''e''"
      and e = DirectoryNotEmpty and names = "[]"]
  note T5 = first_error_ends_run[where s = ?st and a = ?a and s' = ?st
      and r = "(NotADirectoryError, ?st)" and before = "[]" and f = "[''s'', ''d'', ''a'']"
      and fs = "[[''s'', ''e'', ''b'']]"]
  note T6 = first_error_ends_run[where a = ?a3 and r = "projl ?d3" and st = ?st3]
  note T7 = first_error_ends_run[where a = ?a and r = "(NotADirectoryError, ?st)" and st = ?st
      and st' = ?st]
  have c1: "remove_files ?a [''r''] [''gone'', ''d''] ?st = Inl (FileNotFoundError, ?st)"
    using T1 h1 by blast
  have c2: "remove_dirs ?a3 [''r''] [''e''] ?st3 = Inl (DirectoryNotEmpty, ?st3)"
    using T2 h2 by blast
  have c5: "copy_pass ?a ([] @ [''s'', ''d'', ''a''] # [[''s'', ''e'', ''b'']]) ?st
      = Inl (NotADirectoryError, ?st)"
    using T5 h5 by blast
  have c7: "sync_folders ?a ?st = Inl (NotADirectoryError, ?st)"
    using T7 h7 by blast
  have c6: "sync_folders ?a3 ?st3 = Inl (projl ?d3)"
    using T6 h6 by blast
  have d3: "?d3 = deletion_pass ?a3 (os_walk (Dir [(''s'', Dir []), (''r'', Dir [(''e'', Dir [(''x'', File ''1'')])])]) [''r''] False) ?st3"
    by simp
  show ?thesis using c1 c2 c5 c7 c6 i6 h6 unfolding d3 by simp
qed

text \<open>
  C6 as stated fails. The replica holds a regular file \<open>d\<close> where the source holds a
  directory \<open>d\<close>, so the copy of \<open>d/a\<close> raises. The run ends there with the error: the
  file \<open>e/b\<close>, next in the scan, is not copied, nothing is written to the log, and no
  next run is entered into the scheduler.
\<close>

theorem copy_error_aborts_run_counterexample:
  "scan (Dir [(''s'', Dir [(''d'', Dir [(''a'', File ''1'')]), (''e'', Dir [(''b'', File ''2'')])]),
             (''r'', Dir [(''d'', File ''x'')])]) [''s'']
     = [[''s'', ''d'', ''a''], [''s'', ''e'', ''b'']]
   \<and> sync_folders
      \<lparr>source_folder = [''s''], replica_folder = [''r''], log_file = [''log''],
        backup_interval = 60, timestamp = ''T''\<rparr>
      \<lparr>disk = Dir [(''s'', Dir [(''d'', Dir [(''a'', File ''1'')]), (''e'', Dir [(''b'', File ''2'')])]),
             (''r'', Dir [(''d'', File ''x'')])],
        file_copied_counter = 0, file_removed_counter = 0, file_identical_counter = 0,
        queue = []\<rparr>
    = Inl (NotADirectoryError,
      \<lparr>disk = Dir [(''s'', Dir [(''d'', Dir [(''a'', File ''1'')]), (''e'', Dir [(''b'', File ''2'')])]),
             (''r'', Dir [(''d'', File ''x'')])],
        file_copied_counter = 0, file_removed_counter = 0, file_identical_counter = 0,
        queue = []\<rparr>)
   \<and> stat (Dir [(''s'', Dir [(''d'', Dir [(''a'', File ''1'')]), (''e'', Dir [(''b'', File ''2'')])]),
             (''r'', Dir [(''d'', File ''x'')])]) [''r'', ''e'', ''b''] = None
   \<and> stat (Dir [(''s'', Dir [(''d'', Dir [(''a'', File ''1'')]), (''e'', Dir [(''b'', File ''2'')])]),
             (''r'', Dir [(''d'', File ''x'')])]) [''log''] = None"
  by (simp add: run_defs)

end
